theory Spec2Isabelle
  imports Complex_Main "HOL-Library.Log_Nat"
begin

section \<open>Python values used by the video processor\<close>

text \<open>
  The seconds values of a segment are Python floats, that is IEEE 754 doubles. A finite
  double is modelled by the rational number it denotes, and an operation on doubles by
  the exact operation followed by rounding to the nearest double, ties to even:
  \<open>round_double\<close> (53 bits of precision, gradual underflow below \<open>2 powi - 1022\<close>;
  overflow does not arise in the code modelled).
\<close>

definition round_half_even :: "rat \<Rightarrow> int" where
  "round_half_even x =
     (let f = \<lfloor>x\<rfloor>; d = x - of_int f
      in if d < 1 / 2 then f else if 1 / 2 < d then f + 1 else if even f then f else f + 1)"

text \<open>The exponent of a positive rational: the integer part of its binary logarithm.\<close>

definition ilog2 :: "rat \<Rightarrow> int" where
  "ilog2 x =
     (case quotient_of x of (a, b) \<Rightarrow>
        let k = bitlen a - bitlen b in if 2 powi k \<le> x then k else k - 1)"

text \<open>Rounding of a non-negative rational, and of any rational by its sign.\<close>

definition round_magnitude :: "rat \<Rightarrow> rat" where
  "round_magnitude x =
     (if x = 0 then 0
      else let q = 2 powi (max (ilog2 x) (- 1022) - 52)
           in of_int (round_half_even (x / q)) * q)"

definition round_double :: "rat \<Rightarrow> rat" where
  "round_double x = (if x < 0 then - round_magnitude (- x) else round_magnitude x)"

text \<open>
  The non-negative finite doubles: the rationals from 0 up to \<open>2 ^ 1024\<close> that
  rounding leaves as they are.
\<close>

definition is_double :: "rat \<Rightarrow> bool" where
  "is_double x = (0 \<le> x \<and> x < 2 ^ 1024 \<and> round_double x = x)"

definition float_mul :: "rat \<Rightarrow> rat \<Rightarrow> rat" where
  "float_mul x y = round_double (x * y)"

text \<open>\<open>int(x)\<close> of a float: truncation towards zero.\<close>

definition py_int :: "rat \<Rightarrow> int" where
  "py_int x = (if 0 \<le> x then \<lfloor>x\<rfloor> else \<lceil>x\<rceil>)"

text \<open>
  \<open>x % y\<close> and \<open>x // y\<close> on floats, for a divisor other than zero, as CPython computes
  them (\<open>float_rem\<close> and \<open>float_floor_div\<close>): both start from C's \<open>fmod\<close>, which is
  exact and has the sign of \<open>x\<close>; the modulo is moved to the sign of the divisor by
  a float addition, and the quotient is \<open>(x - mod) / y\<close> in floats, floored.
\<close>

definition fmod :: "rat \<Rightarrow> rat \<Rightarrow> rat" where
  "fmod x y = x - y * of_int (py_int (x / y))"

definition py_mod :: "rat \<Rightarrow> rat \<Rightarrow> rat" where
  "py_mod x y =
     (let m = fmod x y
      in if m \<noteq> 0 then (if (y < 0) \<noteq> (m < 0) then round_double (m + y) else m) else 0)"

definition py_floordiv :: "rat \<Rightarrow> rat \<Rightarrow> rat" where
  "py_floordiv x y =
     (let m = fmod x y;
          d0 = round_double (round_double (x - m) / y);
          d = (if m \<noteq> 0 \<and> (y < 0) \<noteq> (m < 0) then round_double (d0 - 1) else d0)
      in if d \<noteq> 0
         then (let f = of_int \<lfloor>d\<rfloor> in if 1 / 2 < d - f then round_double (f + 1) else f)
         else 0)"

text \<open>
  The decimal digits of a non-negative integer, as \<open>str(n)\<close> and the format
  specification \<open>d\<close> print them.
\<close>

definition digit_char :: "nat \<Rightarrow> char" where
  "digit_char d = char_of (48 + d)"

function str_int :: "int \<Rightarrow> string" where
  "str_int n = (if n < 10 then [digit_char (nat n)] else str_int (n div 10) @ [digit_char (nat (n mod 10))])"
  by pat_completeness auto
termination
  by (relation "measure nat") auto

declare str_int.simps [simp del]

definition str_nat :: "nat \<Rightarrow> string" where
  "str_nat n = str_int (int n)"

text \<open>
  The format specification \<open>0Nd\<close> (as in \<open>f"{hours:02d}"\<close>): sign-aware zero padding to a
  minimum width of N characters; longer numbers are never cut.
\<close>

definition fmt_0d :: "nat \<Rightarrow> int \<Rightarrow> string" where
  "fmt_0d width n =
     (if 0 \<le> n
      then replicate (width - length (str_int n)) (CHR ''0'') @ str_int n
      else CHR ''-'' # replicate (width - 1 - length (str_int (- n))) (CHR ''0'') @ str_int (- n))"

section \<open>The timestamp formatter\<close>

text \<open>\<open>VideoProcessor._format_timestamp\<close>, statement by statement.\<close>

definition format_timestamp :: "rat \<Rightarrow> string" where
  "format_timestamp seconds0 =
     (let hours = py_int (py_floordiv seconds0 3600);
          minutes = py_int (py_floordiv (py_mod seconds0 3600) 60);
          seconds1 = py_mod seconds0 60;
          milliseconds = py_int (float_mul (py_mod seconds1 1) 1000);
          seconds2 = py_int seconds1
      in fmt_0d 2 hours @ '':'' @ fmt_0d 2 minutes @ '':'' @ fmt_0d 2 seconds2 @ '',''
           @ fmt_0d 3 milliseconds)"

text \<open>
  The rule as the specification words it: \<open>hours = floor(s/3600)\<close>,
  \<open>minutes = floor((s mod 3600)/60)\<close>, \<open>whole_seconds = floor(s mod 60)\<close>,
  \<open>milliseconds = floor((s mod 1) * 1000)\<close>, rendered \<open>HH:MM:SS,mmm\<close> with zero
  padding to 2, 2, 2 and 3 digits.
\<close>

definition spec_mod :: "rat \<Rightarrow> int \<Rightarrow> rat" where
  "spec_mod s m = s - of_int (m * \<lfloor>s / of_int m\<rfloor>)"

definition spec_hours :: "rat \<Rightarrow> int" where
  "spec_hours s = \<lfloor>s / 3600\<rfloor>"

definition spec_minutes :: "rat \<Rightarrow> int" where
  "spec_minutes s = \<lfloor>spec_mod s 3600 / 60\<rfloor>"

definition spec_whole_seconds :: "rat \<Rightarrow> int" where
  "spec_whole_seconds s = \<lfloor>spec_mod s 60\<rfloor>"

definition spec_milliseconds :: "rat \<Rightarrow> int" where
  "spec_milliseconds s = \<lfloor>spec_mod s 1 * 1000\<rfloor>"

definition zero_pad :: "nat \<Rightarrow> int \<Rightarrow> string" where
  "zero_pad k n = replicate (k - length (str_int n)) (CHR ''0'') @ str_int n"

definition spec_timestamp :: "rat \<Rightarrow> string" where
  "spec_timestamp s =
     zero_pad 2 (spec_hours s) @ '':'' @ zero_pad 2 (spec_minutes s) @ '':''
       @ zero_pad 2 (spec_whole_seconds s) @ '','' @ zero_pad 3 (spec_milliseconds s)"

text \<open>
  The same rule with the product \<open>(s mod 1) * 1000\<close> computed in doubles, as the code
  computes it.
\<close>

definition double_milliseconds :: "rat \<Rightarrow> int" where
  "double_milliseconds s = \<lfloor>float_mul (spec_mod s 1) 1000\<rfloor>"

definition double_timestamp :: "rat \<Rightarrow> string" where
  "double_timestamp s =
     zero_pad 2 (spec_hours s) @ '':'' @ zero_pad 2 (spec_minutes s) @ '':''
       @ zero_pad 2 (spec_whole_seconds s) @ '','' @ zero_pad 3 (double_milliseconds s)"

section \<open>Strings and paths\<close>

text \<open>
  A Python \<open>str\<close> is modelled as a \<open>string\<close> whose characters are the code points
  below 256. \<open>str.isspace\<close>, \<open>str.strip\<close> and \<open>str.lower\<close> act on them as Python
  does on these code points.
\<close>

definition py_isspace :: "char \<Rightarrow> bool" where
  "py_isspace c =
     (let n = (of_char c :: nat)
      in (9 \<le> n \<and> n \<le> 13) \<or> (28 \<le> n \<and> n \<le> 32) \<or> n = 133 \<or> n = 160)"

definition strip :: "string \<Rightarrow> string" where
  "strip s = rev (dropWhile py_isspace (rev (dropWhile py_isspace s)))"

definition lower_char :: "char \<Rightarrow> char" where
  "lower_char c =
     (let n = (of_char c :: nat)
      in if (65 \<le> n \<and> n \<le> 90) \<or> (192 \<le> n \<and> n \<le> 214) \<or> (216 \<le> n \<and> n \<le> 222)
         then char_of (n + 32) else c)"

definition lower :: "string \<Rightarrow> string" where
  "lower s = map lower_char s"

type_synonym path = string

text \<open>\<open>os.path.join\<close> (two arguments), \<open>os.path.basename\<close> and the first component of
  \<open>os.path.splitext\<close>, as \<open>posixpath\<close> defines them.\<close>

definition path_join :: "path \<Rightarrow> string \<Rightarrow> path" where
  "path_join a b =
     (if b \<noteq> [] \<and> hd b = CHR ''/'' then b
      else if a = [] \<or> last a = CHR ''/'' then a @ b
      else a @ ''/'' @ b)"

definition basename :: "path \<Rightarrow> string" where
  "basename p = rev (takeWhile (\<lambda>c. c \<noteq> CHR ''/'') (rev p))"

definition splitext_root :: "path \<Rightarrow> path" where
  "splitext_root p =
     (let name = basename p;
          ext = rev (takeWhile (\<lambda>c. c \<noteq> CHR ''.'') (rev name));
          stem = take (length name - length ext - 1) name
      in if CHR ''.'' \<in> set name \<and> (\<exists>c \<in> set stem. c \<noteq> CHR ''.'')
         then take (length p - length ext - 1) p else p)"

section \<open>Data model\<close>

text \<open>
  A segment is the dictionary the recognizer returns for one utterance, with its keys
  \<open>"start"\<close>, \<open>"end"\<close> and \<open>"text"\<close> present.
\<close>

record segment =
  seg_start :: rat
  seg_end :: rat
  seg_text :: string

text \<open>The language folder binding: the \<open>folder_info\<close> dictionary of \<open>main.py\<close>.\<close>

record language_info =
  code :: "string option"
  folder_id :: "string option"

datatype py_exception =
    OSError
  | FileNotFoundError
  | AttributeError
  | ExternalError
  | Exception string

datatype event =
    LogWarning string
  | LogError string
  | DownloadRequested string path
  | ModelInvoked string
  | UploadRequested string string
  | Removed path

text \<open>
  The world the processor acts on: the local file system, the files held by the remote
  drive (folder id, name, content) and the trace of log records and external calls.
  Records of level \<open>info\<close> are not traced.
\<close>

record world =
  files :: "path \<rightharpoonup> string"
  drive :: "(string \<times> string \<times> string) list"
  trace :: "event list"

type_synonym 'a io = "world \<Rightarrow> (py_exception + 'a) \<times> world"

definition log_warning :: "string \<Rightarrow> world \<Rightarrow> world" where
  "log_warning msg w = w\<lparr>trace := trace w @ [LogWarning msg]\<rparr>"

definition log_error :: "string \<Rightarrow> world \<Rightarrow> world" where
  "log_error msg w = w\<lparr>trace := trace w @ [LogError msg]\<rparr>"

definition record_event :: "event \<Rightarrow> world \<Rightarrow> world" where
  "record_event ev w = w\<lparr>trace := trace w @ [ev]\<rparr>"

text \<open>
  What the code does not decide: the operating system and the media libraries. The
  local file system of the world holds files only; \<open>is_dir\<close> tells which paths are
  directories, for which \<open>can_create\<close> and \<open>can_remove\<close> are false (\<open>open\<close> and
  \<open>os.remove\<close> raise on a directory).
\<close>

datatype clip_result = ClipError | NoAudio | AudioTrack string

datatype model_result = ModelRaises | NotADict | ResultDict "segment list option"

datatype download_result = Media string | MediaFailure string

record system =
  getenv :: "string \<Rightarrow> string option"
  can_create :: "path \<Rightarrow> bool"
  write_limit :: "path \<Rightarrow> nat option"
  can_remove :: "path \<Rightarrow> bool"
  is_dir :: "path \<Rightarrow> bool"
  video_clip :: "string \<Rightarrow> clip_result"
  sf_read :: "string \<Rightarrow> string option"

text \<open>
  The drive client passed as \<open>service\<close>: what a download yields, whether creating a
  file (name, folder id) succeeds, and whether listing a folder for a name raises.
\<close>

record service =
  get_media :: "string \<Rightarrow> download_result"
  files_create :: "string \<Rightarrow> string \<Rightarrow> bool"
  list_raises :: "string \<Rightarrow> string \<Rightarrow> bool"

text \<open>The fields of a \<open>VideoProcessor\<close>; \<open>model\<close> is \<open>None\<close> when loading failed.\<close>

record processor =
  cache_dir :: path
  output_dir :: path
  model :: "(string \<Rightarrow> string \<Rightarrow> model_result) option"

section \<open>The subtitle writer\<close>

text \<open>
  An open text file: the number of \<open>write\<close> calls made and the text written.
  \<open>write_limit\<close> of the system gives the number of calls that succeed on a path before
  one raises (\<open>None\<close>: all succeed).
\<close>

definition f_write :: "nat option \<Rightarrow> nat \<times> string \<Rightarrow> string \<Rightarrow> py_exception + nat \<times> string" where
  "f_write limit h s =
     (case h of (n, buf) \<Rightarrow>
        if (case limit of None \<Rightarrow> False | Some k \<Rightarrow> k \<le> n) then Inl OSError
        else Inr (Suc n, buf @ s))"

text \<open>The \<open>for i, segment in enumerate(segments, 1)\<close> loop of \<open>_write_srt\<close>.\<close>

fun write_entries ::
  "nat option \<Rightarrow> nat \<Rightarrow> segment list \<Rightarrow> nat \<times> string \<Rightarrow> py_exception option \<times> (nat \<times> string)" where
  "write_entries limit i [] h = (None, h)"
| "write_entries limit i (segment # segments) h =
     (let start_time = format_timestamp (seg_start segment);
          end_time = format_timestamp (seg_end segment);
          text = strip (seg_text segment)
      in if text = [] then write_entries limit (Suc i) segments h
         else
           (case f_write limit h (str_nat i @ ''\<newline>'') of
              Inl e \<Rightarrow> (Some e, h)
            | Inr h1 \<Rightarrow>
               (case f_write limit h1 (start_time @ '' --> '' @ end_time @ ''\<newline>'') of
                  Inl e \<Rightarrow> (Some e, h1)
                | Inr h2 \<Rightarrow>
                   (case f_write limit h2 (text @ ''\<newline>\<newline>'') of
                      Inl e \<Rightarrow> (Some e, h2)
                    | Inr h3 \<Rightarrow> write_entries limit (Suc i) segments h3))))"

text \<open>The body of the \<open>try\<close> block of \<open>_write_srt\<close>, then the function with its handler.\<close>

definition write_srt_try :: "system \<Rightarrow> segment list \<Rightarrow> path \<Rightarrow> bool io" where
  "write_srt_try sys segments output_path w =
     (if segments = [] then (Inr False, log_warning ''No segments to write to SRT file'' w)
      else if \<not> can_create sys output_path then (Inl OSError, w)
      else
        (case write_entries (write_limit sys output_path) 1 segments (0, []) of
           (None, h) \<Rightarrow> (Inr True, w\<lparr>files := (files w)(output_path \<mapsto> snd h)\<rparr>)
         | (Some e, h) \<Rightarrow> (Inl e, w\<lparr>files := (files w)(output_path \<mapsto> snd h)\<rparr>)))"

definition write_srt :: "system \<Rightarrow> segment list \<Rightarrow> path \<Rightarrow> bool io" where
  "write_srt sys segments output_path w =
     (case write_srt_try sys segments output_path w of
        (Inl e, w') \<Rightarrow> (Inr False, log_error ''Error writing SRT file'' w')
      | (Inr b, w') \<Rightarrow> (Inr b, w'))"

section \<open>File operations\<close>

text \<open>\<open>os.path.exists\<close>\<close>

definition path_exists :: "system \<Rightarrow> world \<Rightarrow> path \<Rightarrow> bool" where
  "path_exists sys w p = (files w p \<noteq> None \<or> is_dir sys p)"

text \<open>\<open>try: os.remove(p) except Exception: logger.error(msg)\<close>\<close>

definition remove_file :: "system \<Rightarrow> path \<Rightarrow> string \<Rightarrow> world \<Rightarrow> world" where
  "remove_file sys p msg w =
     (if can_remove sys p then record_event (Removed p) (w\<lparr>files := (files w)(p := None)\<rparr>)
      else log_error msg w)"

text \<open>\<open>shutil.copy2\<close>\<close>

definition copy2 :: "system \<Rightarrow> path \<Rightarrow> path \<Rightarrow> unit io" where
  "copy2 sys src dst w =
     (case files w src of
        None \<Rightarrow> (Inl FileNotFoundError, w)
      | Some content \<Rightarrow>
          if src = dst \<or> \<not> can_create sys dst then (Inl OSError, w)
          else (Inr (), w\<lparr>files := (files w)(dst \<mapsto> content)\<rparr>))"

text \<open>\<open>VideoProcessor._download_file\<close>\<close>

definition download_file :: "system \<Rightarrow> service \<Rightarrow> string \<Rightarrow> path \<Rightarrow> unit io" where
  "download_file sys service file_id destination_path w =
     (let w1 = record_event (DownloadRequested file_id destination_path) w
      in if \<not> can_create sys destination_path
         then (Inl OSError, log_error ''Error downloading file'' w1)
         else
           (case get_media service file_id of
              MediaFailure partial \<Rightarrow>
                (Inl ExternalError,
                 log_error ''Error downloading file''
                   (w1\<lparr>files := (files w1)(destination_path \<mapsto> partial)\<rparr>))
            | Media content \<Rightarrow>
                (Inr (), w1\<lparr>files := (files w1)(destination_path \<mapsto> content)\<rparr>)))"

text \<open>\<open>VideoProcessor._upload_srt\<close>\<close>

definition upload_srt :: "service \<Rightarrow> path \<Rightarrow> string \<Rightarrow> unit io" where
  "upload_srt service srt_path folder w =
     (let w1 = record_event (UploadRequested (basename srt_path) folder) w
      in case files w1 srt_path of
           None \<Rightarrow> (Inl FileNotFoundError, log_error ''Error uploading SRT file'' w1)
         | Some content \<Rightarrow>
             if files_create service (basename srt_path) folder
             then (Inr (), w1\<lparr>drive := drive w1 @ [(folder, basename srt_path, content)]\<rparr>)
             else (Inl ExternalError, log_error ''Error uploading SRT file'' w1))"

text \<open>\<open>VideoProcessor._cleanup_files\<close>\<close>

fun cleanup_files :: "system \<Rightarrow> path option list \<Rightarrow> world \<Rightarrow> world" where
  "cleanup_files sys [] w = w"
| "cleanup_files sys (file_path # file_paths) w =
     cleanup_files sys file_paths
       (case file_path of
          None \<Rightarrow> w
        | Some p \<Rightarrow>
            if p \<noteq> [] \<and> path_exists sys w p then remove_file sys p ''Error cleaning up file'' w
            else w)"

section \<open>The recognizer adapter\<close>

text \<open>\<open>video.audio.write_audiofile(audio_path, ...)\<close> on an opened clip.\<close>

definition write_audiofile :: "system \<Rightarrow> clip_result \<Rightarrow> path \<Rightarrow> unit io" where
  "write_audiofile sys clip audio_path w =
     (case clip of
        ClipError \<Rightarrow> (Inl ExternalError, w)
      | NoAudio \<Rightarrow> (Inl AttributeError, w)
      | AudioTrack samples \<Rightarrow>
          if can_create sys audio_path
          then (Inr (), w\<lparr>files := (files w)(audio_path \<mapsto> samples)\<rparr>)
          else (Inl OSError, w))"

text \<open>
  \<open>VideoProcessor.prepare_audio\<close>: the file is read by \<open>soundfile\<close>; the conversion of
  the samples to mono \<open>float32\<close> is part of what \<open>sf_read\<close> yields.
\<close>

definition prepare_audio :: "system \<Rightarrow> path \<Rightarrow> world \<Rightarrow> py_exception + string" where
  "prepare_audio sys audio_path w =
     (case files w audio_path of
        None \<Rightarrow> Inl ExternalError
      | Some bytes \<Rightarrow> (case sf_read sys bytes of None \<Rightarrow> Inl ExternalError | Some d \<Rightarrow> Inr d))"

text \<open>The inner \<open>try\<close> of \<open>transcribe_video\<close> (lines 134 to 173) with its handler.\<close>

definition run_transcription ::
  "processor \<Rightarrow> system \<Rightarrow> (string \<Rightarrow> string \<Rightarrow> model_result) \<Rightarrow> string \<Rightarrow> string \<Rightarrow> path
     \<Rightarrow> world \<Rightarrow> path option \<times> world" where
  "run_transcription self sys m audio_data language_code video_path w =
     (let w1 = record_event (ModelInvoked language_code) w
      in case m audio_data language_code of
           ModelRaises \<Rightarrow>
             (None, log_error ''Detailed transcription error:'' (log_error ''Transcription failed'' w1))
         | NotADict \<Rightarrow> (None, log_error ''Unexpected result type'' w1)
         | ResultDict None \<Rightarrow>
             (None, log_error ''Available keys in result''
                      (log_error ''No segments found in transcription result'' w1))
         | ResultDict (Some segments) \<Rightarrow>
             if segments = [] then (None, log_warning ''No segments were transcribed'' w1)
             else
               (let srt_path =
                      path_join (cache_dir self) (splitext_root (basename video_path) @ ''.srt'')
                in case write_srt sys segments srt_path w1 of
                     (Inl e, w2) \<Rightarrow>
                       (None, log_error ''Detailed transcription error:''
                                (log_error ''Transcription failed'' w2))
                   | (Inr written, w2) \<Rightarrow>
                       if written then (Some srt_path, w2)
                       else (None, log_error ''Failed to write SRT file'' w2)))"

text \<open>
  The outer \<open>try\<close> block of \<open>transcribe_video\<close>. The second component of the result is
  the local variable \<open>audio_path\<close> when the block is left.
\<close>

definition transcribe_video_try ::
  "processor \<Rightarrow> system \<Rightarrow> path \<Rightarrow> string \<Rightarrow> world
     \<Rightarrow> (py_exception + path option) \<times> path option \<times> world" where
  "transcribe_video_try self sys video_path language_code w =
     (case files w video_path of
        None \<Rightarrow> (Inl FileNotFoundError, None, w)
      | Some video_bytes \<Rightarrow>
          if video_clip sys video_bytes = ClipError then (Inl ExternalError, None, w)
          else
            (let audio_path =
                   path_join (cache_dir self) (splitext_root (basename video_path) @ ''.wav'')
             in case write_audiofile sys (video_clip sys video_bytes) audio_path w of
                  (Inl e, w1) \<Rightarrow> (Inl e, Some audio_path, w1)
                | (Inr _, w1) \<Rightarrow>
                    (case model self of
                       None \<Rightarrow> (Inr None, Some audio_path, log_error ''WhisperX model not available'' w1)
                     | Some m \<Rightarrow>
                         (case prepare_audio sys audio_path w1 of
                            Inl e \<Rightarrow> (Inl e, Some audio_path, w1)
                          | Inr audio_data \<Rightarrow>
                              (case run_transcription self sys m audio_data language_code video_path w1 of
                                 (r, w2) \<Rightarrow> (Inr r, Some audio_path, w2))))))"

text \<open>\<open>VideoProcessor.transcribe_video\<close>: the block, its handler and its \<open>finally\<close>.\<close>

definition transcribe_video :: "processor \<Rightarrow> system \<Rightarrow> path \<Rightarrow> string \<Rightarrow> path option io" where
  "transcribe_video self sys video_path language_code w =
     (case transcribe_video_try self sys video_path language_code w of
        (r, audio_path, w1) \<Rightarrow>
          (let handled =
                 (case r of
                    Inl e \<Rightarrow> (None, log_error ''Detailed error:'' (log_error ''Error in transcribe_video'' w1))
                  | Inr v \<Rightarrow> (v, w1));
               w2 = snd handled;
               w3 = (case audio_path of
                       None \<Rightarrow> w2
                     | Some p \<Rightarrow>
                         if p \<noteq> [] \<and> path_exists sys w2 p
                         then remove_file sys p ''Error cleaning up audio file'' w2 else w2)
           in (Inr (fst handled), w3)))"

section \<open>The orchestrator\<close>

text \<open>Lines 86 to 100 of \<open>process_video\<close>: the destination folder and the upload.\<close>

definition upload_to_destination :: "system \<Rightarrow> service \<Rightarrow> string \<Rightarrow> path \<Rightarrow> unit io" where
  "upload_to_destination sys service lang_code srt_path w =
     (if lower lang_code = ''nl''
      then
        (case getenv sys ''OUTPUT_FOLDER_ID'' of
           None \<Rightarrow> (Inl (Exception ''Output folder ID not configured''), w)
         | Some output_folder_id \<Rightarrow>
             if output_folder_id = [] then (Inl (Exception ''Output folder ID not configured''), w)
             else upload_srt service srt_path output_folder_id w)
      else
        (case getenv sys ''TEXT_TRANSLATION_FOLDER_ID'' of
           None \<Rightarrow> (Inl (Exception ''Input folder ID not configured''), w)
         | Some input_folder_id \<Rightarrow>
             if input_folder_id = [] then (Inl (Exception ''Input folder ID not configured''), w)
             else upload_srt service srt_path input_folder_id w))"

text \<open>Lines 61 to 68: the language code of the binding, \<open>'en'\<close> when it carries none.\<close>

definition lang_code_of :: "language_info \<Rightarrow> string" where
  "lang_code_of language_info =
     (case code language_info of None \<Rightarrow> ''en'' | Some c \<Rightarrow> if c = [] then ''en'' else c)"

text \<open>Lines 63 and 64: the warning logged when the binding carries no code.\<close>

definition warn_missing_code :: "language_info \<Rightarrow> world \<Rightarrow> world" where
  "warn_missing_code language_info w =
     (if code language_info = None \<or> code language_info = Some []
      then log_warning ''No language code provided, defaulting to English'' w else w)"

text \<open>
  The \<open>try\<close> block of \<open>process_video\<close>. The second component of the result holds the
  local variables \<open>video_path\<close> and \<open>srt_path\<close> when the block is left.
\<close>

definition process_video_try ::
  "processor \<Rightarrow> system \<Rightarrow> string \<Rightarrow> string \<Rightarrow> language_info \<Rightarrow> service \<Rightarrow> world
     \<Rightarrow> (py_exception + bool) \<times> (path option \<times> path option) \<times> world" where
  "process_video_try self sys file_id file_name language_info service w =
     (let w1 = warn_missing_code language_info w;
          lang_code = lang_code_of language_info;
          video_path = path_join (cache_dir self) file_name
      in case download_file sys service file_id video_path w1 of
           (Inl e, w2) \<Rightarrow> (Inl e, (Some video_path, None), w2)
         | (Inr _, w2) \<Rightarrow>
             (case transcribe_video self sys video_path lang_code w2 of
                (Inl e, w3) \<Rightarrow> (Inl e, (Some video_path, None), w3)
              | (Inr None, w3) \<Rightarrow>
                  (Inl (Exception ''Failed to create SRT file''), (Some video_path, None), w3)
              | (Inr (Some srt_path), w3) \<Rightarrow>
                  if srt_path = []
                  then (Inl (Exception ''Failed to create SRT file''), (Some video_path, Some srt_path), w3)
                  else
                    (case copy2 sys srt_path (path_join (output_dir self) (basename srt_path)) w3 of
                       (Inl e, w4) \<Rightarrow> (Inl e, (Some video_path, Some srt_path), w4)
                     | (Inr _, w4) \<Rightarrow>
                         (case upload_to_destination sys service lang_code srt_path w4 of
                            (Inl e, w5) \<Rightarrow> (Inl e, (Some video_path, Some srt_path), w5)
                          | (Inr _, w5) \<Rightarrow> (Inr True, (Some video_path, Some srt_path), w5)))))"

text \<open>\<open>VideoProcessor.process_video\<close>: the block, its handler and its \<open>finally\<close>.\<close>

definition process_video ::
  "processor \<Rightarrow> system \<Rightarrow> string \<Rightarrow> string \<Rightarrow> language_info \<Rightarrow> service \<Rightarrow> bool io" where
  "process_video self sys file_id file_name language_info service w =
     (case process_video_try self sys file_id file_name language_info service w of
        (r, (video_path, srt_path), w1) \<Rightarrow>
          (let handled =
                 (case r of
                    Inl e \<Rightarrow> (False, log_error ''Error processing video'' w1)
                  | Inr b \<Rightarrow> (b, w1))
           in (Inr (fst handled), cleanup_files sys [video_path, srt_path] (snd handled))))"

section \<open>The existence check\<close>

text \<open>
  \<open>VideoProcessor.check_existing_translation\<close>: the two folders and the two names are
  tried in order; a query that raises is logged and the search goes on.
\<close>

fun find_existing :: "service \<Rightarrow> (string \<times> string) list \<Rightarrow> world \<Rightarrow> bool \<times> world" where
  "find_existing service [] w = (False, w)"
| "find_existing service ((folder, name) # queries) w =
     (if list_raises service folder name
      then find_existing service queries (log_error ''Error checking folder'' w)
      else if \<exists>entry \<in> set (drive w). fst entry = folder \<and> fst (snd entry) = name then (True, w)
      else find_existing service queries w)"

definition check_existing_translation ::
  "string \<Rightarrow> service \<Rightarrow> string \<Rightarrow> string \<Rightarrow> world \<Rightarrow> bool \<times> world" where
  "check_existing_translation file_name service output_folder_id translation_folder_id w =
     (let base_without_ext = splitext_root file_name;
          possible_names = [base_without_ext @ ''_AI_Translated.srt'', base_without_ext @ ''.srt'']
      in find_existing service
           (concat (map (\<lambda>folder. map (\<lambda>name. (folder, name)) possible_names)
                      [output_folder_id, translation_folder_id])) w)"

section \<open>Entries of a subtitle file\<close>

text \<open>
  The block written for one segment under the index \<open>i\<close>, the entries the loop of
  \<open>_write_srt\<close> emits (Python's \<open>enumerate(segments, i)\<close>, without the segments whose
  trimmed text is empty), and the entries as the specification words them: the segments
  with non-empty trimmed text, renumbered contiguously from 1.
\<close>

definition nonempty_text :: "segment \<Rightarrow> bool" where
  "nonempty_text seg = (strip (seg_text seg) \<noteq> [])"

definition srt_block :: "nat \<Rightarrow> segment \<Rightarrow> string" where
  "srt_block i seg =
     str_nat i @ ''\<newline>''
       @ format_timestamp (seg_start seg) @ '' --> '' @ format_timestamp (seg_end seg) @ ''\<newline>''
       @ strip (seg_text seg) @ ''\<newline>\<newline>''"

definition render_entries :: "(nat \<times> segment) list \<Rightarrow> string" where
  "render_entries entries = concat (map (\<lambda>(i, seg). srt_block i seg) entries)"

definition emitted :: "nat \<Rightarrow> segment list \<Rightarrow> (nat \<times> segment) list" where
  "emitted i segments = filter (\<lambda>(i, seg). nonempty_text seg) (List.enumerate i segments)"

definition spec_entries :: "segment list \<Rightarrow> (nat \<times> segment) list" where
  "spec_entries segments = List.enumerate 1 (filter nonempty_text segments)"

text \<open>Whether \<open>m\<close> calls of \<open>write\<close> succeed on a file with the given limit.\<close>

definition writes_allowed :: "nat option \<Rightarrow> nat \<Rightarrow> bool" where
  "writes_allowed limit m = (case limit of None \<Rightarrow> True | Some k \<Rightarrow> m \<le> k)"

section \<open>Concrete inputs\<close>

definition env_vars :: "string \<Rightarrow> string option" where
  "env_vars k =
     (if k = ''OUTPUT_FOLDER_ID'' then Some ''OUT''
      else if k = ''TEXT_TRANSLATION_FOLDER_ID'' then Some ''IN'' else None)"

definition sys_ok :: system where
  "sys_ok =
     \<lparr>getenv = env_vars, can_create = (\<lambda>p. True), write_limit = (\<lambda>p. None),
      can_remove = (\<lambda>p. True), is_dir = (\<lambda>p. False), video_clip = (\<lambda>v. AudioTrack ''pcm''),
      sf_read = (\<lambda>a. Some ''samples'')\<rparr>"

definition sys_readonly :: system where
  "sys_readonly = sys_ok\<lparr>can_create := (\<lambda>p. False)\<rparr>"

definition sys_disk_full :: system where
  "sys_disk_full = sys_ok\<lparr>write_limit := (\<lambda>p. if p = ''Data/Cache/talk.srt'' then Some 1 else None)\<rparr>"

definition empty_world :: world where
  "empty_world = \<lparr>files = Map.empty, drive = [], trace = []\<rparr>"

definition mk_segment :: "rat \<Rightarrow> rat \<Rightarrow> string \<Rightarrow> segment" where
  "mk_segment a b t = \<lparr>seg_start = a, seg_end = b, seg_text = t\<rparr>"

definition five_segments :: "segment list" where
  "five_segments =
     [mk_segment 0 1 ''a'', mk_segment 1 2 ''b'', mk_segment 2 3 '' '', mk_segment 3 4 ''d'', mk_segment 4 5 ''e'']"

definition two_segments :: "segment list" where
  "two_segments = [mk_segment 1 2.5 ''hello'', mk_segment 4 6.25 ''world'']"

definition blank_segments :: "segment list" where
  "blank_segments = [mk_segment 0 1 '' '', mk_segment 1 2 []]"

definition sys_archive_readonly :: system where
  "sys_archive_readonly = sys_ok\<lparr>can_create := (\<lambda>p. p \<noteq> ''Data/Output/talk.srt'')\<rparr>"

definition recognizer :: "string \<Rightarrow> string \<Rightarrow> model_result" where
  "recognizer audio_data language = ResultDict (Some two_segments)"

definition blank_recognizer :: "string \<Rightarrow> string \<Rightarrow> model_result" where
  "blank_recognizer audio_data language = ResultDict (Some blank_segments)"

definition failing_recognizer :: "string \<Rightarrow> string \<Rightarrow> model_result" where
  "failing_recognizer audio_data language = NotADict"

definition processor_a :: processor where
  "processor_a = \<lparr>cache_dir = ''Data/Cache'', output_dir = ''Data/Output'', model = Some recognizer\<rparr>"

definition drive_ok :: service where
  "drive_ok =
     \<lparr>get_media = (\<lambda>file_id. Media ''mp4''), files_create = (\<lambda>name folder. True),
      list_raises = (\<lambda>folder name. False)\<rparr>"

definition dutch :: language_info where
  "dutch = \<lparr>code = Some ''nl'', folder_id = Some ''dutch-videos''\<rparr>"

definition dutch_upper :: language_info where
  "dutch_upper = \<lparr>code = Some ''NL'', folder_id = Some ''dutch-videos''\<rparr>"

definition german :: language_info where
  "german = \<lparr>code = Some ''de'', folder_id = Some ''german-videos''\<rparr>"

definition other :: language_info where
  "other = \<lparr>code = None, folder_id = Some ''other-videos''\<rparr>"

definition after_first_run :: world where
  "after_first_run = snd (process_video processor_a sys_ok ''id1'' ''talk.mp4'' dutch drive_ok empty_world)"

section \<open>Properties of rounding to a double\<close>

lemma round_half_even_le: "x \<le> of_int n \<Longrightarrow> round_half_even x \<le> n"
proof -
  assume a: "x \<le> of_int n"
  then have f: "\<lfloor>x\<rfloor> \<le> n" by (simp add: floor_le_iff) 
  show ?thesis
  proof (cases "\<lfloor>x\<rfloor> = n")
    case True
    then have "x - of_int \<lfloor>x\<rfloor> \<le> 0" using a by simp
    then show ?thesis using True by (simp add: round_half_even_def Let_def)
  next
    case False
    with f have "\<lfloor>x\<rfloor> + 1 \<le> n" by simp
    then show ?thesis by (simp add: round_half_even_def Let_def)
  qed
qed

lemma round_half_even_nonneg: "0 \<le> x \<Longrightarrow> 0 \<le> round_half_even x"
  by (simp add: round_half_even_def Let_def)

lemma round_half_even_below_half:
  assumes "x < of_int n - 1 / 2"
  shows "round_half_even x \<le> n - 1"
proof -
  from assms have "x < of_int n" by simp
  then have f: "\<lfloor>x\<rfloor> \<le> n - 1" by (simp add: floor_less_iff)
  show ?thesis
  proof (cases "\<lfloor>x\<rfloor> = n - 1")
    case True
    then have "x - of_int \<lfloor>x\<rfloor> < 1 / 2" using assms by simp
    then show ?thesis using True by (simp add: round_half_even_def Let_def)
  next
    case False
    with f have "\<lfloor>x\<rfloor> + 1 \<le> n - 1" by simp
    then show ?thesis by (simp add: round_half_even_def Let_def)
  qed
qed


lemma two_powi_pos: "0 < (2::rat) powi k"
  by simp

lemma two_powi_le: "a \<le> b \<Longrightarrow> (2::rat) powi a \<le> 2 powi b"
  by (rule power_int_increasing) simp_all

lemma two_powi_less_cancel: "(2::rat) powi a < 2 powi b \<Longrightarrow> a < b"
proof (rule ccontr)
  assume l: "(2::rat) powi a < 2 powi b" and "\<not> a < b"
  then have "(2::rat) powi b \<le> 2 powi a" by (intro two_powi_le) simp
  with l show False by simp
qed

lemma two_powi_add: "(2::rat) powi (a + b) = 2 powi a * 2 powi b"
  by (rule power_int_add) simp

lemma two_powi_diff: "(2::rat) powi (a - b) = 2 powi a / 2 powi b"
  by (rule power_int_diff) simp

lemma two_powi_nat: "0 \<le> k \<Longrightarrow> (2::rat) powi k = of_int (2 ^ nat k)"
  by (simp add: power_int_def)

lemma bitlen_powi_bounds:
  assumes "0 < a"
  shows "(2::rat) powi (bitlen a - 1) \<le> of_int a" and "of_int a < (2::rat) powi bitlen a"
proof -
  from assms have ge1: "1 \<le> bitlen a" by (simp add: bitlen_alt_def)
  from bitlen_bounds [OF assms] have lo: "2 ^ nat (bitlen a - 1) \<le> a" and hi: "a < 2 ^ nat (bitlen a)"
    by simp_all
  from lo have "(of_int (2 ^ nat (bitlen a - 1)) :: rat) \<le> of_int a" by (simp only: of_int_le_iff)
  with ge1 show "(2::rat) powi (bitlen a - 1) \<le> of_int a" by (simp add: two_powi_nat)
  from hi have "(of_int a :: rat) < of_int (2 ^ nat (bitlen a))" by (simp only: of_int_less_iff)
  with ge1 show "of_int a < (2::rat) powi bitlen a" by (simp add: two_powi_nat)
qed

lemma ilog2_bounds:
  assumes "0 < x"
  shows "2 powi ilog2 x \<le> x" and "x < 2 powi (ilog2 x + 1)"
proof -
  obtain a b where q: "quotient_of x = (a, b)" by (cases "quotient_of x")
  then have b: "0 < b" and x: "x = of_int a / of_int b"
    by (simp_all add: quotient_of_denom_pos quotient_of_div)
  from assms x b have a: "0 < a" by (simp add: zero_less_divide_iff)
  define k where "k = bitlen a - bitlen b"
  have "x < 2 powi bitlen a / 2 powi (bitlen b - 1)"
    unfolding x using bitlen_powi_bounds [OF a] bitlen_powi_bounds [OF b] a b
    by (intro frac_less) simp_all
  then have hi: "x < 2 powi (k + 1)"
    by (simp add: k_def two_powi_diff [symmetric] algebra_simps)
  have "2 powi (bitlen a - 1) / 2 powi bitlen b \<le> x"
    unfolding x using bitlen_powi_bounds [OF a] bitlen_powi_bounds [OF b] a b
    by (intro frac_le) simp_all
  then have lo: "2 powi (k - 1) \<le> x"
    by (simp add: k_def two_powi_diff [symmetric] algebra_simps)
  have i: "ilog2 x = (if 2 powi k \<le> x then k else k - 1)"
    by (simp add: ilog2_def q k_def Let_def)
  show "2 powi ilog2 x \<le> x" using lo by (simp add: i)
  show "x < 2 powi (ilog2 x + 1)" using hi by (auto simp: i)
qed


lemma round_double_nonneg_def:
  "0 \<le> x \<Longrightarrow>
   round_double x =
     (if x = 0 then 0
      else let q = 2 powi (max (ilog2 x) (- 1022) - 52)
           in of_int (round_half_even (x / q)) * q)"
  by (simp add: round_double_def round_magnitude_def)

lemma round_double_nonneg: "0 \<le> x \<Longrightarrow> 0 \<le> round_double x"
  by (simp add: round_double_nonneg_def Let_def round_half_even_nonneg)

lemma round_double_below_1000:
  assumes "0 \<le> p" and "p < 1000 - 2 powi (- 44)"
  shows "round_double p < 1000"
proof (cases "p = 0")
  case True
  then show ?thesis by (simp add: round_double_nonneg_def)
next
  case False
  with assms(1) have pos: "0 < p" by simp
  define E where "E = max (ilog2 p) (- 1022) - 52"
  define q :: rat where "q = 2 powi E"
  define N :: int where "N = 1000 * 2 ^ nat (- E)"
  have "(2::rat) powi (- 44) > 0" by simp
  with assms(2) have "p < 1000" by linarith
  also have "(1000::rat) < 2 powi 10" by simp
  finally have "2 powi ilog2 p < (2::rat) powi 10"
    using ilog2_bounds(1) [OF pos] by simp
  then have "ilog2 p < 10" by (rule two_powi_less_cancel)
  then have E: "E \<le> - 43" by (simp add: E_def)
  have qpos: "0 < q" by (simp add: q_def)
  have inv: "1 / q = 2 powi (- E)" by (simp add: q_def power_int_minus field_simps)
  have N: "of_int N = 1000 / q"
  proof -
    have "(2::rat) powi (- E) = of_int (2 ^ nat (- E))" using E by (intro two_powi_nat) simp
    then show ?thesis using inv by (simp add: N_def)
  qed
  have half: "1 / 2 \<le> 2 powi (- 44) / q"
  proof -
    have "2 powi (- 44) / q = (2::rat) powi (- 44 - E)" by (simp add: q_def two_powi_diff)
    moreover have "(2::rat) powi (- 1) \<le> 2 powi (- 44 - E)" using E by (intro two_powi_le) simp
    ultimately show ?thesis by simp
  qed
  have "p / q < (1000 - 2 powi (- 44)) / q"
    using assms(2) qpos by (rule divide_strict_right_mono)
  also have "\<dots> = of_int N - 2 powi (- 44) / q" by (simp add: N diff_divide_distrib)
  also have "\<dots> \<le> of_int N - 1 / 2" using half by simp
  finally have "round_half_even (p / q) \<le> N - 1" by (rule round_half_even_below_half)
  then have "(of_int (round_half_even (p / q)) :: rat) \<le> of_int (N - 1)" by (simp only: of_int_le_iff)
  then have "of_int (round_half_even (p / q)) * q \<le> of_int (N - 1) * q"
    using qpos by (simp add: mult_right_mono)
  also have "of_int (N - 1) * q = 1000 - q" using qpos by (simp add: N algebra_simps)
  also have "\<dots> < 1000" using qpos by simp
  finally show ?thesis using False assms(1) by (simp add: round_double_nonneg_def Let_def q_def E_def)
qed

lemma double_fraction_bound:
  assumes "is_double s" and "0 \<le> s"
  shows "s - of_int \<lfloor>s\<rfloor> \<le> 1 - 2 powi (- 53)"
proof (cases "s = 0")
  case True
  then show ?thesis by simp
next
  case False
  with assms(2) have pos: "0 < s" by simp
  define E where "E = max (ilog2 s) (- 1022) - 52"
  define q :: rat where "q = 2 powi E"
  define m where "m = round_half_even (s / q)"
  have qpos: "0 < q" by (simp add: q_def)
  have s: "s = of_int m * q"
    using assms False by (simp add: is_double_def round_double_nonneg_def Let_def m_def q_def E_def)
  have "2 powi (ilog2 s - 52) \<le> q" unfolding q_def E_def by (intro two_powi_le) simp
  moreover have "s < 2 powi (ilog2 s + 1)" by (rule ilog2_bounds(2) [OF pos])
  ultimately have "s / q < 2 powi (ilog2 s + 1) / 2 powi (ilog2 s - 52)"
    using pos by (intro frac_less) simp_all
  also have "\<dots> = 2 powi 53" by (simp add: two_powi_diff [symmetric])
  finally have "s / q \<le> of_int (2 ^ 53)" by simp
  then have m: "m \<le> 2 ^ 53" unfolding m_def by (rule round_half_even_le)
  have frac_lt: "s - of_int \<lfloor>s\<rfloor> < 1" by linarith
  consider "0 \<le> E" | "E \<le> - 54" | "- 53 \<le> E" "E < 0" by linarith
  then show ?thesis
  proof cases
    case 1
    then have "q = of_int (2 ^ nat E)" unfolding q_def by (rule two_powi_nat)
    then have "s = of_int (m * 2 ^ nat E)" using s by simp
    then have "s - of_int \<lfloor>s\<rfloor> = 0" by (simp only: floor_of_int)
    then show ?thesis by simp
  next
    case 2
    then have "q \<le> 2 powi (- 54)" unfolding q_def by (rule two_powi_le)
    moreover have "(of_int m :: rat) \<le> 2 ^ 53" using m by (metis of_int_le_iff of_int_numeral of_int_power)
    ultimately have "of_int m * q \<le> 2 ^ 53 * 2 powi (- 54)"
      using qpos by (intro mult_mono) simp_all
    then have "s \<le> 1 / 2" using s by (simp add: power_int_minus)
    moreover have "(0::rat) \<le> of_int \<lfloor>s\<rfloor>" using assms(2) by simp
    ultimately have "s - of_int \<lfloor>s\<rfloor> \<le> 1 / 2" by linarith
    then show ?thesis by (simp add: power_int_minus)
  next
    case 3
    define k where "k = m - \<lfloor>s\<rfloor> * 2 ^ nat (- E)"
    have inv: "1 / q = of_int (2 ^ nat (- E))"
    proof -
      have "1 / q = 2 powi (- E)" by (simp add: q_def power_int_minus field_simps)
      also have "\<dots> = of_int (2 ^ nat (- E))" using 3 by (intro two_powi_nat) simp
      finally show ?thesis .
    qed
    then have one: "of_int (2 ^ nat (- E)) * q = 1" using qpos by (simp add: field_simps)
    have "s - of_int \<lfloor>s\<rfloor> = of_int m * q - of_int \<lfloor>s\<rfloor> * (of_int (2 ^ nat (- E)) * q)"
      using s by (simp only: one mult_1_right)
    also have "\<dots> = of_int k * q" by (simp add: k_def algebra_simps)
    finally have fr: "s - of_int \<lfloor>s\<rfloor> = of_int k * q" .
    with frac_lt have "of_int k * q < of_int (2 ^ nat (- E)) * q" by (simp only: one)
    then have "(of_int k :: rat) < of_int (2 ^ nat (- E))" using qpos by (simp only: mult_less_cancel_right_pos)
    then have "k < 2 ^ nat (- E)" by (simp only: of_int_less_iff)
    then have "k \<le> 2 ^ nat (- E) - 1" by simp
    then have "(of_int k :: rat) \<le> of_int (2 ^ nat (- E) - 1)" by (simp only: of_int_le_iff)
    then have "of_int k * q \<le> of_int (2 ^ nat (- E) - 1) * q" using qpos by (simp add: mult_right_mono)
    also have "\<dots> = 1 - q" using one by (simp add: algebra_simps)
    also have "\<dots> \<le> 1 - 2 powi (- 53)"
    proof -
      have "(2::rat) powi (- 53) \<le> q" unfolding q_def using 3 by (intro two_powi_le) simp
      then show ?thesis by simp
    qed
    finally show ?thesis by (simp only: fr)
  qed
qed

lemma milliseconds_product_below_1000:
  assumes "is_double s" and "0 \<le> s"
  shows "round_double ((s - of_int \<lfloor>s\<rfloor>) * 1000) < 1000"
    and "0 \<le> round_double ((s - of_int \<lfloor>s\<rfloor>) * 1000)"
proof -
  have nonneg: "0 \<le> s - of_int \<lfloor>s\<rfloor>" by linarith
  have "(2::rat) powi (- 44) < 1000 * 2 powi (- 53)" by (simp add: power_int_minus)
  moreover have "(s - of_int \<lfloor>s\<rfloor>) * 1000 \<le> (1 - 2 powi (- 53)) * 1000"
    using double_fraction_bound [OF assms] by simp
  ultimately have "(s - of_int \<lfloor>s\<rfloor>) * 1000 < 1000 - 2 powi (- 44)" by (simp add: algebra_simps)
  with nonneg show "round_double ((s - of_int \<lfloor>s\<rfloor>) * 1000) < 1000"
    by (intro round_double_below_1000) simp_all
  from nonneg show "0 \<le> round_double ((s - of_int \<lfloor>s\<rfloor>) * 1000)"
    by (intro round_double_nonneg) simp
qed

lemma round_half_even_of_int: "round_half_even (of_int k) = k"
  by (simp add: round_half_even_def)

lemma round_half_even_ge: "of_int n \<le> x \<Longrightarrow> n \<le> round_half_even x"
proof -
  assume "of_int n \<le> x"
  then have "n \<le> \<lfloor>x\<rfloor>" by (simp add: le_floor_iff)
  then show ?thesis by (simp add: round_half_even_def Let_def)
qed

lemma round_double_of_int:
  assumes "0 \<le> n" and "n < 2 ^ 53"
  shows "round_double (of_int n) = of_int n"
proof (cases "n = 0")
  case True
  then show ?thesis by (simp add: round_double_nonneg_def)
next
  case False
  with assms(1) have pos: "0 < (of_int n :: rat)" by simp
  define e where "e = ilog2 (of_int n)"
  define q :: rat where "q = 2 powi (e - 52)"
  have "2 powi e \<le> (of_int n :: rat)" unfolding e_def by (rule ilog2_bounds(1) [OF pos])
  also have "(of_int n :: rat) < of_int (2 ^ 53)" using assms(2) by (simp only: of_int_less_iff)
  also have "(of_int (2 ^ 53) :: rat) = 2 powi 53" by simp
  finally have "e < 53" by (rule two_powi_less_cancel)
  have "(2::rat) powi 0 \<le> of_int n" using False assms(1) by simp
  also have "(of_int n :: rat) < 2 powi (e + 1)" unfolding e_def by (rule ilog2_bounds(2) [OF pos])
  finally have "0 < e + 1" by (rule two_powi_less_cancel)
  with \<open>e < 53\<close> have e: "0 \<le> e" "e \<le> 52" by simp_all
  then have m: "max e (- 1022) - 52 = e - 52" by simp
  have qpos: "0 < q" by (simp add: q_def)
  have "1 / q = 2 powi (52 - e)" by (simp add: q_def power_int_diff field_simps)
  also have "\<dots> = of_int (2 ^ nat (52 - e))" using e by (intro two_powi_nat) simp
  finally have inv: "1 / q = of_int (2 ^ nat (52 - e))" .
  have "of_int n / q = of_int n * (1 / q)" by simp
  also have "\<dots> = of_int (n * 2 ^ nat (52 - e))" by (simp only: inv of_int_mult)
  finally have "round_half_even (of_int n / q) = n * 2 ^ nat (52 - e)"
    by (simp only: round_half_even_of_int)
  then have "of_int (round_half_even (of_int n / q)) * q = of_int n * (of_int (2 ^ nat (52 - e)) * q)"
    by (simp only: of_int_mult mult.assoc)
  also have "of_int (2 ^ nat (52 - e)) * q = 1" using inv qpos by (simp add: field_simps)
  finally have "of_int (round_half_even (of_int n / q)) * q = of_int n" by simp
  then show ?thesis
    using False assms(1) by (simp add: round_double_nonneg_def Let_def e_def [symmetric] m q_def [symmetric])
qed

lemma round_double_between_integers:
  assumes "0 \<le> p" and "p < 1000"
  shows "of_int \<lfloor>p\<rfloor> \<le> round_double p" and "round_double p \<le> of_int (\<lfloor>p\<rfloor> + 1)"
proof -
  have both: "of_int \<lfloor>p\<rfloor> \<le> round_double p \<and> round_double p \<le> of_int (\<lfloor>p\<rfloor> + 1)"
  proof (cases "p = 0")
    case True
    then show ?thesis by (simp add: round_double_nonneg_def)
  next
    case False
    with assms(1) have pos: "0 < p" by simp
    define E where "E = max (ilog2 p) (- 1022) - 52"
    define q :: rat where "q = 2 powi E"
    have "2 powi ilog2 p \<le> p" by (rule ilog2_bounds(1) [OF pos])
    also have "p < 2 powi 10" using assms(2) by simp
    finally have "ilog2 p < 10" by (rule two_powi_less_cancel)
    then have E: "E \<le> - 43" by (simp add: E_def)
    have qpos: "0 < q" by (simp add: q_def)
    have "1 / q = 2 powi (- E)" by (simp add: q_def power_int_minus field_simps)
    also have "\<dots> = of_int (2 ^ nat (- E))" using E by (intro two_powi_nat) simp
    finally have inv: "1 / q = of_int (2 ^ nat (- E))" .
    then have one: "of_int (2 ^ nat (- E)) * q = 1" using qpos by (simp add: field_simps)
    have scaled: "of_int k / q = of_int (k * 2 ^ nat (- E))" for k
    proof -
      have "of_int k / q = of_int k * (1 / q)" by simp
      then show ?thesis by (simp only: inv of_int_mult)
    qed
    have unscale: "of_int (k * 2 ^ nat (- E)) * q = of_int k" for k
    proof -
      have "of_int (k * 2 ^ nat (- E)) * q = of_int k * (of_int (2 ^ nat (- E)) * q)"
        by (simp only: of_int_mult mult.assoc)
      then show ?thesis by (simp only: one mult_1_right)
    qed
    have rd: "round_double p = of_int (round_half_even (p / q)) * q"
      using False assms(1) by (simp add: round_double_nonneg_def Let_def q_def E_def)
    have "of_int \<lfloor>p\<rfloor> / q \<le> p / q"
      using qpos by (intro divide_right_mono) simp_all
    then have "of_int (\<lfloor>p\<rfloor> * 2 ^ nat (- E)) \<le> p / q" by (simp only: scaled)
    then have "\<lfloor>p\<rfloor> * 2 ^ nat (- E) \<le> round_half_even (p / q)" by (rule round_half_even_ge)
    then have "(of_int (\<lfloor>p\<rfloor> * 2 ^ nat (- E)) :: rat) \<le> of_int (round_half_even (p / q))"
      by (simp only: of_int_le_iff)
    then have "of_int (\<lfloor>p\<rfloor> * 2 ^ nat (- E)) * q \<le> of_int (round_half_even (p / q)) * q"
      using qpos by (intro mult_right_mono) simp_all
    then have lo: "of_int \<lfloor>p\<rfloor> \<le> round_double p" by (simp only: unscale rd)
    have "p \<le> of_int (\<lfloor>p\<rfloor> + 1)" by linarith
    then have "p / q \<le> of_int (\<lfloor>p\<rfloor> + 1) / q"
      using qpos by (intro divide_right_mono) simp_all
    then have "p / q \<le> of_int ((\<lfloor>p\<rfloor> + 1) * 2 ^ nat (- E))" by (simp only: scaled)
    then have "round_half_even (p / q) \<le> (\<lfloor>p\<rfloor> + 1) * 2 ^ nat (- E)" by (rule round_half_even_le)
    then have "(of_int (round_half_even (p / q)) :: rat) \<le> of_int ((\<lfloor>p\<rfloor> + 1) * 2 ^ nat (- E))"
      by (simp only: of_int_le_iff)
    then have "of_int (round_half_even (p / q)) * q \<le> of_int ((\<lfloor>p\<rfloor> + 1) * 2 ^ nat (- E)) * q"
      using qpos by (intro mult_right_mono) simp_all
    then have hi: "round_double p \<le> of_int (\<lfloor>p\<rfloor> + 1)" by (simp only: unscale rd)
    from lo hi show ?thesis by simp
  qed
  from both show "of_int \<lfloor>p\<rfloor> \<le> round_double p" by simp
  from both show "round_double p \<le> of_int (\<lfloor>p\<rfloor> + 1)" by simp
qed



section \<open>Properties of the timestamp formatter\<close>

lemma py_int_of_int: "py_int (of_int k) = k"
  by (simp add: py_int_def)

lemma py_int_nonneg: "0 \<le> x \<Longrightarrow> py_int x = \<lfloor>x\<rfloor>"
  by (simp add: py_int_def)

lemma floor_mod_bounds:
  assumes "0 < y"
  shows "0 \<le> x - y * of_int \<lfloor>x / y\<rfloor>" and "x - y * of_int \<lfloor>x / y\<rfloor> < y"
proof -
  have xy: "y * (x / y) = x" using assms by simp
  have a: "of_int \<lfloor>x / y\<rfloor> \<le> x / y" by (rule of_int_floor_le)
  have b: "x / y < of_int \<lfloor>x / y\<rfloor> + 1" by linarith
  have "y * of_int \<lfloor>x / y\<rfloor> \<le> y * (x / y)"
    using a assms by (intro mult_left_mono) simp_all
  then have "y * of_int \<lfloor>x / y\<rfloor> \<le> x" by (simp only: xy)
  then show "0 \<le> x - y * of_int \<lfloor>x / y\<rfloor>" by simp
  have "y * (x / y) < y * (of_int \<lfloor>x / y\<rfloor> + 1)"
    using b assms by (intro mult_strict_left_mono) simp_all
  then have "x < y * (of_int \<lfloor>x / y\<rfloor> + 1)" by (simp only: xy)
  then show "x - y * of_int \<lfloor>x / y\<rfloor> < y" by (simp add: algebra_simps)
qed

lemma fmod_nonneg:
  assumes "0 \<le> x" and "0 < y"
  shows "fmod x y = x - y * of_int \<lfloor>x / y\<rfloor>"
  using assms by (simp add: fmod_def py_int_nonneg)

lemma py_mod_nonneg:
  assumes "0 \<le> x" and "0 < y"
  shows "py_mod x y = x - y * of_int \<lfloor>x / y\<rfloor>"
proof -
  have "0 \<le> fmod x y" using floor_mod_bounds(1) [OF assms(2), of x] by (simp add: fmod_nonneg assms)
  then have "py_mod x y = fmod x y" using assms(2) by (auto simp: py_mod_def Let_def)
  then show ?thesis by (simp add: fmod_nonneg assms)
qed

lemma py_mod_bounds:
  assumes "0 \<le> x" and "0 < y"
  shows "0 \<le> py_mod x y" and "py_mod x y < y"
  using floor_mod_bounds [OF assms(2), of x] by (simp_all add: py_mod_nonneg assms)

lemma py_mod_spec_mod: "0 \<le> s \<Longrightarrow> 0 < m \<Longrightarrow> py_mod s (of_int m) = spec_mod s m"
  by (simp add: py_mod_nonneg spec_mod_def)

lemma py_mod_60_1:
  assumes "0 \<le> s"
  shows "py_mod (py_mod s 60) 1 = py_mod s 1"
proof -
  have m: "py_mod s 60 = s - of_int (60 * \<lfloor>s / 60\<rfloor>)" using assms by (simp add: py_mod_nonneg)
  then have "\<lfloor>py_mod s 60\<rfloor> = \<lfloor>s\<rfloor> - 60 * \<lfloor>s / 60\<rfloor>"
    by (simp only: floor_diff_of_int)
  moreover have "0 \<le> py_mod s 60" using assms by (simp add: py_mod_bounds)
  ultimately show ?thesis using assms m by (simp add: py_mod_nonneg)
qed

lemma py_floordiv_exact:
  assumes "0 \<le> x" and "x < 2 ^ 53" and "0 < k"
  shows "py_floordiv x (of_int k) = of_int \<lfloor>x / of_int k\<rfloor>"
proof -
  define y :: rat where "y = of_int k"
  define fl where "fl = \<lfloor>x / y\<rfloor>"
  have ypos: "0 < y" using assms(3) by (simp add: y_def)
  have m: "fmod x y = x - y * of_int fl" unfolding fl_def using assms(1) ypos by (rule fmod_nonneg)
  have mb: "0 \<le> fmod x y" "fmod x y < y"
    using floor_mod_bounds [OF ypos, of x] by (simp_all add: m fl_def)
  have fl0: "0 \<le> fl" using assms(1) ypos by (simp add: fl_def)
  have diff: "x - fmod x y = of_int (k * fl)" unfolding m by (simp add: y_def)
  have "(of_int (k * fl) :: rat) \<le> x" using mb(1) diff by linarith
  also have "x < of_int (2 ^ 53)" using assms(2) by simp
  finally have kfl: "k * fl < 2 ^ 53" by (simp only: of_int_less_iff)
  have kfl0: "0 \<le> k * fl" using fl0 assms(3) by simp
  have "fl \<le> k * fl" using fl0 assms(3) by (simp add: mult_le_cancel_right1)
  with kfl have flb: "fl < 2 ^ 53" by linarith
  have r1: "round_double (x - fmod x y) = of_int (k * fl)"
    by (simp only: diff round_double_of_int [OF kfl0 kfl])
  have "(of_int (k * fl) :: rat) / y = of_int fl" using ypos by (simp add: y_def)
  then have r2: "round_double (round_double (x - fmod x y) / y) = of_int fl"
    by (simp only: r1 round_double_of_int [OF fl0 flb])
  have ny: "(y < 0) = False" using ypos by simp
  have nm: "(fmod x y < 0) = False" using mb(1) by simp
  show ?thesis
    unfolding y_def [symmetric] fl_def [symmetric]
    by (simp add: py_floordiv_def Let_def r2 ny nm)
qed

lemma hours_eq:
  assumes "0 \<le> s" and "s < 2 ^ 53"
  shows "py_int (py_floordiv s 3600) = spec_hours s"
  using py_floordiv_exact [OF assms, of 3600]
  by (simp add: py_int_of_int spec_hours_def)

lemma minutes_eq:
  assumes "0 \<le> s"
  shows "py_int (py_floordiv (py_mod s 3600) 60) = spec_minutes s"
proof -
  have b: "0 \<le> py_mod s 3600" "py_mod s 3600 < 3600"
    using py_mod_bounds [OF assms, of 3600] by simp_all
  then have "py_mod s 3600 < 2 ^ 53" by simp
  from py_floordiv_exact [OF b(1) this, of 60] py_mod_spec_mod [OF assms, of 3600]
  show ?thesis by (simp add: py_int_of_int spec_minutes_def)
qed

lemma seconds_eq: "0 \<le> s \<Longrightarrow> py_int (py_mod s 60) = spec_whole_seconds s"
  using py_mod_spec_mod [of s 60] py_mod_bounds(1) [of s 60]
  by (simp add: py_int_nonneg spec_whole_seconds_def)

lemma product_nonneg: "0 \<le> s \<Longrightarrow> 0 \<le> float_mul (py_mod s 1) 1000"
  using py_mod_bounds(1) [of s 1] by (simp add: float_mul_def round_double_nonneg)

lemma millis_eq:
  "0 \<le> s \<Longrightarrow> py_int (float_mul (py_mod (py_mod s 60) 1) 1000) = double_milliseconds s"
  using py_mod_spec_mod [of s 1] product_nonneg [of s]
  by (simp add: py_mod_60_1 py_int_nonneg double_milliseconds_def)

lemma spec_minutes_bounds: "0 \<le> spec_minutes s \<and> spec_minutes s < 60"
proof -
  have "0 \<le> spec_mod s 3600" "spec_mod s 3600 < 3600"
    using floor_mod_bounds [of 3600 s] by (simp_all add: spec_mod_def)
  then have "0 \<le> spec_mod s 3600 / 60" "spec_mod s 3600 / 60 < 60" by simp_all
  then have "0 \<le> \<lfloor>spec_mod s 3600 / 60\<rfloor>" "\<lfloor>spec_mod s 3600 / 60\<rfloor> < 60"
    by (simp_all add: floor_less_iff)
  then show ?thesis by (simp add: spec_minutes_def)
qed

lemma spec_whole_seconds_bounds: "0 \<le> spec_whole_seconds s \<and> spec_whole_seconds s < 60"
proof -
  have "0 \<le> spec_mod s 60" "spec_mod s 60 < 60"
    using floor_mod_bounds [of 60 s] by (simp_all add: spec_mod_def)
  then have "0 \<le> \<lfloor>spec_mod s 60\<rfloor>" "\<lfloor>spec_mod s 60\<rfloor> < 60"
    by (simp_all add: floor_less_iff)
  then show ?thesis by (simp add: spec_whole_seconds_def)
qed

lemma spec_mod_1: "spec_mod s 1 = s - of_int \<lfloor>s\<rfloor>"
  by (simp add: spec_mod_def)

lemma double_milliseconds_nonneg: "0 \<le> double_milliseconds s"
proof -
  have "0 \<le> spec_mod s 1" using floor_mod_bounds(1) [of 1 s] by (simp add: spec_mod_def)
  then have "0 \<le> float_mul (spec_mod s 1) 1000" by (simp add: float_mul_def round_double_nonneg)
  then show ?thesis by (simp add: double_milliseconds_def)
qed

lemma double_milliseconds_bounds:
  assumes "is_double s" and "0 \<le> s"
  shows "0 \<le> double_milliseconds s \<and> double_milliseconds s \<le> 999"
proof -
  have "float_mul (spec_mod s 1) 1000 < 1000"
    using milliseconds_product_below_1000(1) [OF assms] by (simp add: float_mul_def spec_mod_1)
  then have "\<lfloor>float_mul (spec_mod s 1) 1000\<rfloor> < 1000" by (simp add: floor_less_iff)
  then show ?thesis using double_milliseconds_nonneg [of s] by (simp add: double_milliseconds_def)
qed

lemma double_milliseconds_near_exact:
  shows "spec_milliseconds s \<le> double_milliseconds s"
    and "double_milliseconds s \<le> spec_milliseconds s + 1"
    and "double_milliseconds s = spec_milliseconds s + 1 \<Longrightarrow>
           float_mul (spec_mod s 1) 1000 = of_int (spec_milliseconds s + 1)"
proof -
  define p where "p = spec_mod s 1 * 1000"
  have "0 \<le> spec_mod s 1" "spec_mod s 1 < 1"
    using floor_mod_bounds [of 1 s] by (simp_all add: spec_mod_def)
  then have p: "0 \<le> p" "p < 1000" by (simp_all add: p_def)
  note b = round_double_between_integers [OF p]
  have sm: "spec_milliseconds s = \<lfloor>p\<rfloor>" by (simp add: spec_milliseconds_def p_def)
  have dm: "double_milliseconds s = \<lfloor>round_double p\<rfloor>"
    by (simp add: double_milliseconds_def float_mul_def p_def)
  from b(1) show lo: "spec_milliseconds s \<le> double_milliseconds s"
    unfolding sm dm by (simp add: le_floor_iff)
  from b(2) show hi: "double_milliseconds s \<le> spec_milliseconds s + 1"
    unfolding sm dm by (simp add: floor_le_iff)
  assume "double_milliseconds s = spec_milliseconds s + 1"
  then have "of_int (\<lfloor>p\<rfloor> + 1) \<le> round_double p" unfolding sm dm by linarith
  with b(2) have "round_double p = of_int (\<lfloor>p\<rfloor> + 1)" by simp
  then show "float_mul (spec_mod s 1) 1000 = of_int (spec_milliseconds s + 1)"
    by (simp add: float_mul_def p_def sm)
qed

lemma fmt_0d_nonneg: "0 \<le> n \<Longrightarrow> fmt_0d k n = zero_pad k n"
  by (simp add: fmt_0d_def zero_pad_def)

lemma spec_hours_nonneg: "0 \<le> s \<Longrightarrow> 0 \<le> spec_hours s"
  by (simp add: spec_hours_def)

lemma format_timestamp_double:
  assumes "0 \<le> s" and "s < 2 ^ 53"
  shows "format_timestamp s = double_timestamp s"
  using spec_minutes_bounds [of s] spec_whole_seconds_bounds [of s] double_milliseconds_nonneg [of s]
  by (simp add: format_timestamp_def Let_def double_timestamp_def hours_eq [OF assms]
      minutes_eq [OF assms(1)] seconds_eq [OF assms(1)] millis_eq [OF assms(1)] fmt_0d_nonneg
      spec_hours_nonneg [OF assms(1)])


lemma format_timestamp_zero: "is_double 0 \<and> format_timestamp 0 = ''00:00:00,000''"
  by code_simp

lemma format_timestamp_3661: "is_double 3661.5 \<and> format_timestamp 3661.5 = ''01:01:01,500''"
  by code_simp

text \<open>The Python literal \<open>59.9999\<close> denotes the double \<open>2111058806892711 / 2 ^ 45\<close>.\<close>

lemma format_timestamp_59:
  "is_double (2111058806892711 / 2 ^ 45)
   \<and> format_timestamp (2111058806892711 / 2 ^ 45) = ''00:00:59,999''"
  by code_simp

text \<open>
  Claim C2, as amended. For every non-negative double below \<open>2 ^ 53\<close> the formatter
  renders \<open>HH:MM:SS,mmm\<close>, zero-padded, with the hours, minutes and whole seconds of the
  specification's rule and with the milliseconds \<open>floor((s mod 1) * 1000)\<close> of the
  product computed in doubles. These milliseconds are the ones of the exact product or,
  only when the double product is rounded up to the next integer, one more; they never
  reach 1000, and minutes and seconds stay below 60. The value 0.0 gives
  \<open>00:00:00,000\<close>, 3661.5 gives \<open>01:01:01,500\<close> and 59.9999 gives \<open>00:00:59,999\<close>.
\<close>

theorem format_timestamp_rule:
  "(0 \<le> s \<and> s < 2 ^ 53 \<and> is_double s \<longrightarrow>
      format_timestamp s = double_timestamp s
      \<and> 0 \<le> spec_hours s
      \<and> 0 \<le> spec_minutes s \<and> spec_minutes s < 60
      \<and> 0 \<le> spec_whole_seconds s \<and> spec_whole_seconds s < 60
      \<and> spec_milliseconds s \<le> double_milliseconds s
      \<and> double_milliseconds s \<le> spec_milliseconds s + 1
      \<and> (double_milliseconds s = spec_milliseconds s + 1 \<longrightarrow>
            float_mul (spec_mod s 1) 1000 = of_int (spec_milliseconds s + 1))
      \<and> 0 \<le> double_milliseconds s \<and> double_milliseconds s \<le> 999)
   \<and> format_timestamp 0 = ''00:00:00,000''
   \<and> format_timestamp 3661.5 = ''01:01:01,500''
   \<and> format_timestamp (2111058806892711 / 2 ^ 45) = ''00:00:59,999''"
  using format_timestamp_double [of s] spec_hours_nonneg [of s] spec_minutes_bounds [of s]
    spec_whole_seconds_bounds [of s] double_milliseconds_bounds [of s]
    double_milliseconds_near_exact [of s]
    format_timestamp_zero format_timestamp_3661 format_timestamp_59
  by blast

theorem format_timestamp_rule_witness:
  "(0::rat) \<le> 3725.25 \<and> (3725.25::rat) < 2 ^ 53 \<and> is_double 3725.25
     \<and> format_timestamp 3725.25 = double_timestamp 3725.25
     \<and> double_timestamp 3725.25 = ''01:02:05,250''"
proof -
  have "double_timestamp 3725.25 = ''01:02:05,250''" by code_simp
  moreover have "is_double 3725.25" by code_simp
  moreover have "(0::rat) \<le> 3725.25 \<and> (3725.25::rat) < 2 ^ 53" by simp
  ultimately show ?thesis using format_timestamp_rule [of "3725.25"] by blast
qed

text \<open>
  Claim C2 as stated fails. The Python literal \<open>0.009\<close> denotes a double just below
  9/1000: the rule gives 8 milliseconds, but the double product is rounded to 9 and the
  formatter prints \<open>009\<close>. At \<open>1e20\<close> the float floor division is rounded and the
  hours differ from \<open>floor(s/3600)\<close>.
\<close>

theorem format_timestamp_exact_rule_counterexample:
  "is_double (5188146770730811 / 2 ^ 59)
   \<and> format_timestamp (5188146770730811 / 2 ^ 59) = ''00:00:00,009''
   \<and> spec_timestamp (5188146770730811 / 2 ^ 59) = ''00:00:00,008''
   \<and> is_double (10 ^ 20)
   \<and> format_timestamp (10 ^ 20) = ''27777777777777776:46:40,000''
   \<and> spec_timestamp (10 ^ 20) = ''27777777777777777:46:40,000''"
  by code_simp

section \<open>Properties of the subtitle writer\<close>

lemma emitted_Nil: "emitted i [] = []"
  by (simp add: emitted_def)

lemma emitted_Cons:
  "emitted i (seg # segs) = (if nonempty_text seg then [(i, seg)] else []) @ emitted (Suc i) segs"
  by (simp add: emitted_def)

lemma render_entries_Cons: "render_entries ((i, seg) # es) = srt_block i seg @ render_entries es"
  by (simp add: render_entries_def)

lemma render_entries_Nil: "render_entries [] = []"
  by (simp add: render_entries_def)

lemma map_snd_emitted: "map snd (emitted i segs) = filter nonempty_text segs"
  by (induction segs arbitrary: i) (simp_all add: emitted_Nil emitted_Cons)

lemma length_emitted: "length (emitted i segs) = length (filter nonempty_text segs)"
  using map_snd_emitted [of i segs] by (metis length_map)

lemma emitted_position:
  assumes "(k, seg) \<in> set (emitted i segs)"
  shows "i \<le> k \<and> k < i + length segs \<and> segs ! (k - i) = seg"
  using assms by (auto simp: emitted_def in_set_enumerate_eq)

lemma write_entries_all_empty:
  "\<forall>seg \<in> set segs. strip (seg_text seg) = [] \<Longrightarrow> write_entries limit i segs h = (None, h)"
  by (induction segs arbitrary: i) simp_all

lemma f_write_limited:
  "f_write (Some k) (n, buf) s = (if k \<le> n then Inl OSError else Inr (Suc n, buf @ s))"
  by (simp add: f_write_def)

lemma write_entries_limited:
  "fst (write_entries (Some k) i segs (n, buf)) =
     (if emitted i segs \<noteq> [] \<and> k < n + 3 * length (emitted i segs) then Some OSError else None)"
proof (induction segs arbitrary: i n buf)
  case Nil
  show ?case by (simp add: emitted_Nil)
next
  case (Cons seg segs)
  show ?case
  proof (cases "nonempty_text seg")
    case True
    then show ?thesis
      by (simp add: Cons.IH emitted_Cons f_write_limited Let_def nonempty_text_def)
  next
    case False
    then show ?thesis
      by (simp add: Cons.IH emitted_Cons nonempty_text_def)
  qed
qed


lemma f_write_allowed:
  "writes_allowed limit (Suc n) \<Longrightarrow> f_write limit (n, buf) s = Inr (Suc n, buf @ s)"
  by (cases limit) (simp_all add: f_write_def writes_allowed_def)

lemma writes_allowed_mono: "writes_allowed limit m \<Longrightarrow> k \<le> m \<Longrightarrow> writes_allowed limit k"
  by (cases limit) (simp_all add: writes_allowed_def)

lemma write_entries_allowed:
  "writes_allowed limit (n + 3 * length (emitted i segs)) \<Longrightarrow>
   write_entries limit i segs (n, buf) =
     (None, (n + 3 * length (emitted i segs), buf @ render_entries (emitted i segs)))"
proof (induction segs arbitrary: i n buf)
  case Nil
  show ?case by (simp add: emitted_Nil render_entries_Nil)
next
  case (Cons seg segs)
  show ?case
  proof (cases "nonempty_text seg")
    case True
    let ?m = "length (emitted (Suc i) segs)"
    have "Suc (Suc (Suc n)) + 3 * ?m \<le> n + 3 * length (emitted i (seg # segs))"
      using True by (simp add: emitted_Cons)
    with Cons.prems have all: "writes_allowed limit (Suc (Suc (Suc n)) + 3 * ?m)"
      by (rule writes_allowed_mono)
    have w1: "writes_allowed limit (Suc n)"
      and w2: "writes_allowed limit (Suc (Suc n))"
      and w3: "writes_allowed limit (Suc (Suc (Suc n)))"
      using all by (auto elim: writes_allowed_mono)
    from True show ?thesis
      by (simp add: Cons.IH [OF all] emitted_Cons render_entries_Cons f_write_allowed w1 w2 w3
          Let_def nonempty_text_def srt_block_def)
  next
    case False
    with Cons.prems have "writes_allowed limit (n + 3 * length (emitted (Suc i) segs))"
      by (simp add: emitted_Cons)
    with False show ?thesis
      by (simp add: Cons.IH emitted_Cons nonempty_text_def)
  qed
qed

lemma write_entries_refused:
  "\<not> writes_allowed limit (3 * length (emitted 1 segs)) \<Longrightarrow>
   fst (write_entries limit 1 segs (0, [])) = Some OSError"
  using write_entries_limited [of _ 1 segs 0 "[]"]
  by (cases limit) (auto simp: writes_allowed_def)

lemma write_srt_try_written:
  assumes "segments \<noteq> []" and "can_create sys output_path"
    and "writes_allowed (write_limit sys output_path) (3 * length (emitted 1 segments))"
  shows "write_srt_try sys segments output_path w =
     (Inr True, w\<lparr>files := (files w)(output_path \<mapsto> render_entries (emitted 1 segments))\<rparr>)"
  using assms write_entries_allowed [of "write_limit sys output_path" 0 1 segments "[]"]
  by (simp add: write_srt_try_def)

lemma write_srt_try_raises:
  assumes "segments \<noteq> []"
    and "\<not> can_create sys output_path
         \<or> \<not> writes_allowed (write_limit sys output_path) (3 * length (emitted 1 segments))"
  shows "\<exists>e w'. write_srt_try sys segments output_path w = (Inl e, w') \<and> trace w' = trace w"
proof (cases "can_create sys output_path")
  case False
  with assms(1) show ?thesis by (simp add: write_srt_try_def)
next
  case True
  with assms(2) have "\<not> writes_allowed (write_limit sys output_path) (3 * length (emitted 1 segments))"
    by blast
  then have "fst (write_entries (write_limit sys output_path) 1 segments (0, [])) = Some OSError"
    by (rule write_entries_refused)
  then obtain h where "write_entries (write_limit sys output_path) 1 segments (0, []) = (Some OSError, h)"
    by (cases "write_entries (write_limit sys output_path) 1 segments (0, [])") simp
  with assms(1) True show ?thesis by (simp add: write_srt_try_def)
qed

text \<open>
  Claim C1, as amended. When the file can be opened and every write succeeds, the writer
  returns true and the file holds one entry for each segment with non-empty trimmed
  text, in the order of the segments; the index of an entry is the 1-based position of
  its segment in the input sequence, so a skipped segment leaves a gap in the numbering.
\<close>

theorem write_srt_numbering:
  assumes "segments \<noteq> []" and "can_create sys output_path"
    and "writes_allowed (write_limit sys output_path) (3 * length (emitted 1 segments))"
  shows "write_srt sys segments output_path w =
           (Inr True, w\<lparr>files := (files w)(output_path \<mapsto> render_entries (emitted 1 segments))\<rparr>)
         \<and> emitted 1 segments = filter (\<lambda>(i, seg). nonempty_text seg) (List.enumerate 1 segments)
         \<and> length (emitted 1 segments) = length (filter nonempty_text segments)
         \<and> map snd (emitted 1 segments) = filter nonempty_text segments
         \<and> (\<forall>(k, seg) \<in> set (emitted 1 segments).
               1 \<le> k \<and> k \<le> length segments \<and> segments ! (k - 1) = seg)"
proof -
  have "write_srt sys segments output_path w =
          (Inr True, w\<lparr>files := (files w)(output_path \<mapsto> render_entries (emitted 1 segments))\<rparr>)"
    by (simp add: write_srt_def write_srt_try_written [OF assms])
  moreover have "\<forall>(k, seg) \<in> set (emitted 1 segments).
      1 \<le> k \<and> k \<le> length segments \<and> segments ! (k - 1) = seg"
    using emitted_position [of _ _ 1 segments] by fastforce
  moreover have "emitted 1 segments = filter (\<lambda>(i, seg). nonempty_text seg) (List.enumerate 1 segments)"
    by (simp only: emitted_def)
  moreover have "length (emitted 1 segments) = length (filter nonempty_text segments)"
    by (rule length_emitted)
  moreover have "map snd (emitted 1 segments) = filter nonempty_text segments"
    by (rule map_snd_emitted)
  ultimately show ?thesis by blast
qed

theorem write_srt_numbering_witness:
  "five_segments \<noteq> [] \<and> can_create sys_ok ''out.srt''
   \<and> writes_allowed (write_limit sys_ok ''out.srt'') (3 * length (emitted 1 five_segments))
   \<and> files (snd (write_srt sys_ok five_segments ''out.srt'' empty_world)) ''out.srt''
       = Some (render_entries (emitted 1 five_segments))
   \<and> map fst (emitted 1 five_segments) = [1, 2, 4, 5]"
proof -
  have a: "five_segments \<noteq> []" by (simp add: five_segments_def)
  have b: "can_create sys_ok ''out.srt''" by (simp add: sys_ok_def)
  have c: "writes_allowed (write_limit sys_ok ''out.srt'') (3 * length (emitted 1 five_segments))"
    by (simp add: sys_ok_def writes_allowed_def)
  have d: "map fst (emitted 1 five_segments) = [1, 2, 4, 5]" by code_simp
  show ?thesis using write_srt_numbering [OF a b c, of empty_world] a b c d by simp
qed

text \<open>
  Claim C1 as stated fails: with the third of five segments blank, the entries are
  numbered 1, 2, 4, 5, not 1 to 4.
\<close>

theorem write_srt_renumbering_counterexample:
  "files (snd (write_srt sys_ok five_segments ''out.srt'' empty_world)) ''out.srt''
     \<noteq> Some (render_entries (spec_entries five_segments))
   \<and> map fst (spec_entries five_segments) = [1, 2, 3, 4]
   \<and> files (snd (write_srt sys_ok five_segments ''out.srt'' empty_world)) ''out.srt''
     = Some (render_entries [(1, mk_segment 0 1 ''a''), (2, mk_segment 1 2 ''b''), (4, mk_segment 3 4 ''d''), (5, mk_segment 4 5 ''e'')])"
  by code_simp

text \<open>
  Claim C5, as amended. When opening the output file or one of the writes fails, the
  writer catches the exception, logs an error and returns false; no exception reaches
  the caller.
\<close>

theorem write_srt_failure_returns_false:
  assumes "segments \<noteq> []"
    and "\<not> can_create sys output_path
         \<or> \<not> writes_allowed (write_limit sys output_path) (3 * length (emitted 1 segments))"
  shows "fst (write_srt sys segments output_path w) = Inr False
         \<and> trace (snd (write_srt sys segments output_path w))
             = trace w @ [LogError ''Error writing SRT file'']"
proof -
  from write_srt_try_raises [OF assms] obtain e w'
    where "write_srt_try sys segments output_path w = (Inl e, w')" and "trace w' = trace w"
    by blast
  then show ?thesis by (simp add: write_srt_def log_error_def)
qed

theorem write_srt_failure_returns_false_witness:
  "two_segments \<noteq> []
   \<and> \<not> writes_allowed (write_limit sys_disk_full ''Data/Cache/talk.srt'')
         (3 * length (emitted 1 two_segments))
   \<and> fst (write_srt sys_disk_full two_segments ''Data/Cache/talk.srt'' empty_world) = Inr False
   \<and> trace (snd (write_srt sys_disk_full two_segments ''Data/Cache/talk.srt'' empty_world))
       = trace empty_world @ [LogError ''Error writing SRT file'']"
proof -
  have a: "two_segments \<noteq> []" by (simp add: two_segments_def)
  have b: "\<not> writes_allowed (write_limit sys_disk_full ''Data/Cache/talk.srt'')
         (3 * length (emitted 1 two_segments))"
    by code_simp
  from b have c: "\<not> can_create sys_disk_full ''Data/Cache/talk.srt''
         \<or> \<not> writes_allowed (write_limit sys_disk_full ''Data/Cache/talk.srt'')
         (3 * length (emitted 1 two_segments))" by simp
  show ?thesis using write_srt_failure_returns_false [OF a c, of empty_world] a b by simp
qed

text \<open>
  Claim C5 as stated fails: when the file cannot be opened, the writer returns false
  instead of raising.
\<close>

theorem write_srt_open_failure_counterexample:
  "\<not> can_create sys_readonly ''out.srt''
   \<and> fst (write_srt sys_readonly two_segments ''out.srt'' empty_world) = Inr False
   \<and> fst (write_srt sys_readonly two_segments ''out.srt'' empty_world) \<noteq> Inl OSError"
  by code_simp

text \<open>
  Claim C8. On an empty segment sequence the writer returns false and leaves the file
  system as it was: no output file is created.
\<close>

theorem write_srt_empty_sequence:
  "write_srt sys [] output_path w = (Inr False, log_warning ''No segments to write to SRT file'' w)
   \<and> files (snd (write_srt sys [] output_path w)) = files w"
  by (simp add: write_srt_def write_srt_try_def log_warning_def)

lemma write_srt_all_blank:
  assumes "segments \<noteq> []"
    and "\<forall>seg \<in> set segments. strip (seg_text seg) = []"
    and "can_create sys output_path"
  shows "write_srt sys segments output_path w
           = (Inr True, w\<lparr>files := (files w)(output_path \<mapsto> [])\<rparr>)"
proof -
  have "write_entries (write_limit sys output_path) 1 segments (0, []) = (None, (0, []))"
    using assms(2) by (rule write_entries_all_empty)
  then show ?thesis
    using assms(1,3) by (simp add: write_srt_def write_srt_try_def)
qed

lemma emitted_all_blank:
  assumes "\<forall>seg \<in> set segments. strip (seg_text seg) = []"
  shows "emitted i segments = []"
proof -
  have "filter nonempty_text segments = []"
    using assms by (simp add: filter_empty_conv nonempty_text_def)
  then have "map snd (emitted i segments) = []" by (simp only: map_snd_emitted)
  then show ?thesis by simp
qed

text \<open>
  Claim C10. On a non-empty segment sequence whose texts all trim to the empty string,
  the writer (the file can be opened) returns true and leaves an empty output file: no
  entry is emitted.
\<close>

theorem write_srt_blank_segments:
  assumes "segments \<noteq> []"
    and "\<forall>seg \<in> set segments. strip (seg_text seg) = []"
    and "can_create sys output_path"
  shows "write_srt sys segments output_path w
           = (Inr True, w\<lparr>files := (files w)(output_path \<mapsto> [])\<rparr>)
         \<and> emitted 1 segments = []"
  using write_srt_all_blank [OF assms] emitted_all_blank [OF assms(2)] by simp

theorem write_srt_blank_segments_witness:
  "blank_segments \<noteq> []
   \<and> map (\<lambda>seg. strip (seg_text seg)) blank_segments = [[], []]
   \<and> can_create sys_ok ''out.srt''
   \<and> fst (write_srt sys_ok blank_segments ''out.srt'' empty_world) = Inr True
   \<and> files (snd (write_srt sys_ok blank_segments ''out.srt'' empty_world)) ''out.srt'' = Some []"
proof -
  have a: "blank_segments \<noteq> []" by (simp add: blank_segments_def)
  have b: "\<forall>seg \<in> set blank_segments. strip (seg_text seg) = []" by code_simp
  have c: "can_create sys_ok ''out.srt''" by (simp add: sys_ok_def)
  have d: "map (\<lambda>seg. strip (seg_text seg)) blank_segments = [[], []]" by code_simp
  show ?thesis using write_srt_blank_segments [OF a b c, of empty_world] a c d by simp
qed

section \<open>Properties of the recognizer adapter\<close>

text \<open>Which parts of the world each operation leaves alone.\<close>

lemma drive_log [simp]:
  "drive (log_error msg w) = drive w" "drive (log_warning msg w) = drive w"
  "drive (record_event ev w) = drive w"
  by (simp_all add: log_error_def log_warning_def record_event_def)

lemma files_log [simp]:
  "files (log_error msg w) = files w" "files (log_warning msg w) = files w"
  "files (record_event ev w) = files w"
  by (simp_all add: log_error_def log_warning_def record_event_def)

lemma drive_remove_file [simp]: "drive (remove_file sys p msg w) = drive w"
  by (simp add: remove_file_def)

lemma drive_cleanup_files [simp]: "drive (cleanup_files sys ps w) = drive w"
  by (induction ps arbitrary: w) (simp_all split: option.splits)

lemma drive_download_file: "download_file sys service fid p w = (r, w') \<Longrightarrow> drive w' = drive w"
  by (auto simp: download_file_def Let_def split: if_splits download_result.splits)

lemma drive_copy2: "copy2 sys src dst w = (r, w') \<Longrightarrow> drive w' = drive w"
  by (auto simp: copy2_def split: option.splits if_splits)

lemma drive_write_srt: "write_srt sys segs p w = (r, w') \<Longrightarrow> drive w' = drive w"
  by (auto simp: write_srt_def write_srt_try_def split: if_splits prod.splits option.splits sum.splits)

lemma drive_run_transcription:
  "run_transcription self sys m a l v w = (r, w') \<Longrightarrow> drive w' = drive w"
  by (auto simp: run_transcription_def Let_def
      split: model_result.splits option.splits if_splits prod.splits sum.splits
      dest!: drive_write_srt)

lemma drive_write_audiofile: "write_audiofile sys c p w = (r, w') \<Longrightarrow> drive w' = drive w"
  by (auto simp: write_audiofile_def split: clip_result.splits if_splits)

lemma drive_transcribe_video_try:
  "transcribe_video_try self sys v l w = (r, ap, w') \<Longrightarrow> drive w' = drive w"
  by (auto simp: transcribe_video_try_def Let_def
      split: option.splits if_splits prod.splits sum.splits
      dest!: drive_run_transcription drive_write_audiofile)

lemma drive_transcribe_video:
  "transcribe_video self sys v l w = (r, w') \<Longrightarrow> drive w' = drive w"
  by (auto simp: transcribe_video_def Let_def
      split: option.splits if_splits prod.splits sum.splits
      dest!: drive_transcribe_video_try)

lemma transcribe_video_returns: "transcribe_video self sys v l w = (r, w') \<Longrightarrow> \<exists>p. r = Inr p"
  by (auto simp: transcribe_video_def Let_def split: prod.splits)

lemma drive_upload_srt:
  "upload_srt service p folder w = (r, w') \<Longrightarrow>
     (case r of Inl e \<Rightarrow> drive w' = drive w
      | Inr u \<Rightarrow> \<exists>content. drive w' = drive w @ [(folder, basename p, content)])"
  by (auto simp: upload_srt_def Let_def split: option.splits if_splits)

lemma drive_upload_to_destination:
  "upload_to_destination sys service lang p w = (r, w') \<Longrightarrow>
     (case r of Inl e \<Rightarrow> drive w' = drive w
      | Inr u \<Rightarrow> \<exists>dest content.
          getenv sys (if lower lang = ''nl'' then ''OUTPUT_FOLDER_ID'' else ''TEXT_TRANSLATION_FOLDER_ID'')
            = Some dest
          \<and> dest \<noteq> [] \<and> drive w' = drive w @ [(dest, basename p, content)])"
  by (auto simp: upload_to_destination_def split: option.splits if_splits sum.splits
      dest!: drive_upload_srt)

lemma drive_process_video_try:
  assumes "process_video_try self sys fid fname li service w = (r, vs, w')"
  shows "case r of
           Inl e \<Rightarrow> drive w' = drive w
         | Inr b \<Rightarrow> b \<and> (\<exists>dest name content.
             getenv sys (if lower (lang_code_of li) = ''nl'' then ''OUTPUT_FOLDER_ID''
                         else ''TEXT_TRANSLATION_FOLDER_ID'') = Some dest
             \<and> dest \<noteq> [] \<and> drive w' = drive w @ [(dest, name, content)])"
proof -
  define w1 where "w1 = warn_missing_code li w"
  have d1: "drive w1 = drive w" by (simp add: w1_def warn_missing_code_def)
  obtain rd w2 where dl: "download_file sys service fid (path_join (cache_dir self) fname) w1 = (rd, w2)"
    by (cases "download_file sys service fid (path_join (cache_dir self) fname) w1")
  have d2: "drive w2 = drive w" using drive_download_file [OF dl] d1 by simp
  obtain rt w3 where tr: "transcribe_video self sys (path_join (cache_dir self) fname) (lang_code_of li) w2 = (rt, w3)"
    by (cases "transcribe_video self sys (path_join (cache_dir self) fname) (lang_code_of li) w2")
  have d3: "drive w3 = drive w" using drive_transcribe_video [OF tr] d2 by simp
  show ?thesis
  proof (cases rd)
    case (Inl e)
    with assms dl d2 show ?thesis
      by (auto simp: process_video_try_def Let_def w1_def [symmetric])
  next
    case (Inr u)
    note rd = this
    show ?thesis
    proof (cases rt)
      case (Inl e)
      with assms dl tr rd d3 show ?thesis
        by (auto simp: process_video_try_def Let_def w1_def [symmetric])
    next
      case (Inr po)
      note rt = this
      show ?thesis
      proof (cases po)
        case None
        with assms dl tr rd rt d3 show ?thesis
          by (auto simp: process_video_try_def Let_def w1_def [symmetric])
      next
        case (Some srt_path)
        note po = this
        obtain rc w4 where cp: "copy2 sys srt_path (path_join (output_dir self) (basename srt_path)) w3 = (rc, w4)"
          by (cases "copy2 sys srt_path (path_join (output_dir self) (basename srt_path)) w3")
        have d4: "drive w4 = drive w" using drive_copy2 [OF cp] d3 by simp
        obtain ru w5 where up: "upload_to_destination sys service (lang_code_of li) srt_path w4 = (ru, w5)"
          by (cases "upload_to_destination sys service (lang_code_of li) srt_path w4")
        show ?thesis
        proof (cases ru)
          case (Inl e)
          with drive_upload_to_destination [OF up] d4 have "drive w5 = drive w" by simp
          with assms dl tr rd rt po cp up d3 d4 Inl show ?thesis
            by (auto simp: process_video_try_def Let_def w1_def [symmetric] split: if_splits sum.splits)
        next
          case (Inr u2)
          with drive_upload_to_destination [OF up] d4 obtain dest content where
            g: "getenv sys (if lower (lang_code_of li) = ''nl'' then ''OUTPUT_FOLDER_ID''
                          else ''TEXT_TRANSLATION_FOLDER_ID'') = Some dest"
            and ne: "dest \<noteq> []"
            and dr: "drive w5 = drive w @ [(dest, basename srt_path, content)]"
            by auto
          have ex: "\<exists>dest name content.
             getenv sys (if lower (lang_code_of li) = ''nl'' then ''OUTPUT_FOLDER_ID''
                         else ''TEXT_TRANSLATION_FOLDER_ID'') = Some dest
             \<and> dest \<noteq> [] \<and> drive w5 = drive w @ [(dest, name, content)]"
            using g ne dr by blast
          from assms dl tr rd rt po cp up d3 d4 Inr
          have "(r = Inl (Exception ''Failed to create SRT file'') \<and> w' = w3)
                \<or> (\<exists>e. r = Inl e \<and> w' = w4) \<or> (r = Inr True \<and> w' = w5)"
            by (auto simp: process_video_try_def Let_def w1_def [symmetric] split: if_splits sum.splits)
          with d3 d4 ex show ?thesis by (auto simp del: split_paired_Ex)
        qed
      qed
    qed
  qed
qed

lemma drive_process_video:
  assumes "process_video self sys fid fname li service w = (r, w')"
  shows "(r = Inr True \<longrightarrow> (\<exists>dest name content.
             getenv sys (if lower (lang_code_of li) = ''nl'' then ''OUTPUT_FOLDER_ID''
                         else ''TEXT_TRANSLATION_FOLDER_ID'') = Some dest
             \<and> dest \<noteq> [] \<and> drive w' = drive w @ [(dest, name, content)]))
         \<and> (r \<noteq> Inr True \<longrightarrow> r = Inr False \<and> drive w' = drive w)"
proof -
  obtain rt vp sp wt where t: "process_video_try self sys fid fname li service w = (rt, (vp, sp), wt)"
    by (cases "process_video_try self sys fid fname li service w") auto
  from drive_process_video_try [OF t] assms t show ?thesis
    by (auto simp: process_video_def Let_def simp del: cleanup_files.simps split: sum.splits)
qed


lemma path_join_nonempty: "b \<noteq> [] \<Longrightarrow> path_join a b \<noteq> []"
  by (simp add: path_join_def)

lemma run_transcription_path:
  "run_transcription self sys m a l v w = (Some p, w') \<Longrightarrow>
     p = path_join (cache_dir self) (splitext_root (basename v) @ ''.srt'')"
  by (auto simp: run_transcription_def Let_def
      split: model_result.splits option.splits if_splits prod.splits sum.splits)

lemma transcribe_video_try_path:
  "transcribe_video_try self sys v l w = (Inr (Some p), ap, w') \<Longrightarrow>
     p = path_join (cache_dir self) (splitext_root (basename v) @ ''.srt'')"
  by (auto simp: transcribe_video_try_def Let_def
      split: option.splits if_splits prod.splits sum.splits
      dest!: run_transcription_path)

lemma transcribe_video_path:
  "transcribe_video self sys v l w = (Inr (Some p), w') \<Longrightarrow>
     p = path_join (cache_dir self) (splitext_root (basename v) @ ''.srt'')"
  by (auto simp: transcribe_video_def Let_def
      split: option.splits if_splits prod.splits sum.splits
      dest!: transcribe_video_try_path)

lemma copy2_failure: "copy2 sys src dst w = (Inl e, w') \<Longrightarrow> w' = w"
  by (auto simp: copy2_def split: option.splits if_splits)

lemma run_transcription_rejects:
  assumes "m audio_data language_code \<in> {ModelRaises, NotADict, ResultDict None, ResultDict (Some [])}"
  shows "fst (run_transcription self sys m audio_data language_code video_path w) = None"
    and "files (snd (run_transcription self sys m audio_data language_code video_path w)) = files w"
  using assms by (auto simp: run_transcription_def Let_def)

lemma run_transcription_accepts:
  assumes "m audio_data language_code = ResultDict (Some segments)" and "segments \<noteq> []"
    and "srt_path = path_join (cache_dir self) (splitext_root (basename video_path) @ ''.srt'')"
    and "w1 = record_event (ModelInvoked language_code) w"
  shows "fst (run_transcription self sys m audio_data language_code video_path w)
           = (if fst (write_srt sys segments srt_path w1) = Inr True then Some srt_path else None)"
    and "files (snd (run_transcription self sys m audio_data language_code video_path w))
           = files (snd (write_srt sys segments srt_path w1))"
  using assms by (auto simp: run_transcription_def Let_def split: prod.splits sum.splits)

lemma transcribe_video_rejects:
  assumes "model self = Some m"
    and "\<forall>a. m a language_code \<in> {ModelRaises, NotADict, ResultDict None, ResultDict (Some [])}"
  shows "fst (transcribe_video self sys video_path language_code w) = Inr None"
proof -
  obtain r ap w' where t: "transcribe_video_try self sys video_path language_code w = (r, ap, w')"
    by (cases "transcribe_video_try self sys video_path language_code w")
  have "r \<noteq> Inr (Some p)" for p
  proof
    assume "r = Inr (Some p)"
    with t assms(1) obtain a w1 w2 where "run_transcription self sys m a language_code video_path w1 = (Some p, w2)"
      by (auto simp: transcribe_video_try_def Let_def split: option.splits if_splits prod.splits sum.splits)
    moreover have "fst (run_transcription self sys m a language_code video_path w1) = None"
      using assms(2) by (intro run_transcription_rejects(1)) blast
    ultimately show False by simp
  qed
  then have "(case r of Inl e \<Rightarrow> None | Inr v \<Rightarrow> v) = None"
    by (cases r) (auto split: option.splits)
  with t show ?thesis
    by (cases r) (simp_all add: transcribe_video_def Let_def)
qed

text \<open>
  Claim C9. When the model invocation raises, or returns something that is not a
  dictionary, has no \<open>segments\<close> entry or holds an empty segment list, the adapter
  returns no subtitle path and writes no file, and \<open>transcribe_video\<close> returns
  \<open>None\<close>. Otherwise the segment list goes to the subtitle writer as the model
  returned it: result and files are those of the writer on that list, and a list whose
  texts are all blank still yields a (blank) subtitle file, since blank segments are only
  skipped by the writer.
\<close>

theorem recognition_validation:
  assumes "srt_path = path_join (cache_dir self) (splitext_root (basename video_path) @ ''.srt'')"
    and "w1 = record_event (ModelInvoked language_code) w"
  shows "(m audio_data language_code \<in> {ModelRaises, NotADict, ResultDict None, ResultDict (Some [])} \<longrightarrow>
            fst (run_transcription self sys m audio_data language_code video_path w) = None
            \<and> files (snd (run_transcription self sys m audio_data language_code video_path w)) = files w)
         \<and> (model self = Some m
              \<and> (\<forall>a. m a language_code \<in> {ModelRaises, NotADict, ResultDict None, ResultDict (Some [])}) \<longrightarrow>
            fst (transcribe_video self sys video_path language_code w) = Inr None)
         \<and> (m audio_data language_code = ResultDict (Some segments) \<and> segments \<noteq> [] \<longrightarrow>
            fst (run_transcription self sys m audio_data language_code video_path w)
              = (if fst (write_srt sys segments srt_path w1) = Inr True then Some srt_path else None)
            \<and> files (snd (run_transcription self sys m audio_data language_code video_path w))
              = files (snd (write_srt sys segments srt_path w1)))
         \<and> (m audio_data language_code = ResultDict (Some segments) \<and> segments \<noteq> []
              \<and> (\<forall>seg \<in> set segments. strip (seg_text seg) = []) \<and> can_create sys srt_path \<longrightarrow>
            fst (run_transcription self sys m audio_data language_code video_path w) = Some srt_path
            \<and> files (snd (run_transcription self sys m audio_data language_code video_path w)) srt_path
              = Some [])"
proof -
  have blank: "fst (run_transcription self sys m audio_data language_code video_path w) = Some srt_path
      \<and> files (snd (run_transcription self sys m audio_data language_code video_path w)) srt_path = Some []"
    if "m audio_data language_code = ResultDict (Some segments)" "segments \<noteq> []"
      "\<forall>seg \<in> set segments. strip (seg_text seg) = []" "can_create sys srt_path"
    using run_transcription_accepts
        [where m = m and audio_data = audio_data and language_code = language_code, OF that(1,2) assms]
      write_srt_all_blank [OF that(2,3,4), of w1]
    by simp
  show ?thesis
    using run_transcription_rejects [of m audio_data language_code self sys video_path w]
      run_transcription_accepts
        [where m = m and audio_data = audio_data and language_code = language_code
           and segments = segments and sys = sys, OF _ _ assms]
      transcribe_video_rejects [of self m language_code sys video_path w]
      blank
    by blast
qed

theorem recognition_validation_witness:
  "fst (run_transcription processor_a sys_ok blank_recognizer ''samples'' ''nl''
          ''Data/Cache/talk.mp4'' empty_world) = Some ''Data/Cache/talk.srt''
   \<and> files (snd (run_transcription processor_a sys_ok blank_recognizer ''samples'' ''nl''
          ''Data/Cache/talk.mp4'' empty_world)) ''Data/Cache/talk.srt'' = Some []
   \<and> blank_recognizer ''samples'' ''nl'' = ResultDict (Some blank_segments)
   \<and> fst (run_transcription processor_a sys_ok failing_recognizer ''samples'' ''nl''
          ''Data/Cache/talk.mp4'' empty_world) = None"
proof -
  have p: "''Data/Cache/talk.srt''
      = path_join (cache_dir processor_a) (splitext_root (basename ''Data/Cache/talk.mp4'') @ ''.srt'')"
    by code_simp
  have m: "blank_recognizer ''samples'' ''nl'' = ResultDict (Some blank_segments)"
    by (simp add: blank_recognizer_def)
  have ne: "blank_segments \<noteq> []" by (simp add: blank_segments_def)
  have b: "\<forall>seg \<in> set blank_segments. strip (seg_text seg) = []" by code_simp
  have c: "can_create sys_ok ''Data/Cache/talk.srt''" by (simp add: sys_ok_def)
  have f: "failing_recognizer ''samples'' ''nl''
             \<in> {ModelRaises, NotADict, ResultDict None, ResultDict (Some [])}"
    by (simp add: failing_recognizer_def)
  note accepted = recognition_validation
    [where m = blank_recognizer and audio_data = "''samples''" and language_code = "''nl''"
       and sys = sys_ok and w = empty_world and segments = blank_segments and self = processor_a,
     OF p refl]
  note rejected = recognition_validation
    [where m = failing_recognizer and audio_data = "''samples''" and language_code = "''nl''"
       and sys = sys_ok and w = empty_world and segments = blank_segments and self = processor_a,
     OF p refl]
  from accepted m ne b c
  have r1: "fst (run_transcription processor_a sys_ok blank_recognizer ''samples'' ''nl''
          ''Data/Cache/talk.mp4'' empty_world) = Some ''Data/Cache/talk.srt''
   \<and> files (snd (run_transcription processor_a sys_ok blank_recognizer ''samples'' ''nl''
          ''Data/Cache/talk.mp4'' empty_world)) ''Data/Cache/talk.srt'' = Some []"
    by blast
  from rejected f
  have r2: "fst (run_transcription processor_a sys_ok failing_recognizer ''samples'' ''nl''
          ''Data/Cache/talk.mp4'' empty_world) = None"
    by blast
  show ?thesis using r1 r2 m by blast
qed

section \<open>Properties of the orchestrator\<close>

lemma lower_char_eq:
  assumes "(of_char t :: nat) = k" and "97 \<le> k" and "k \<le> 122"
  shows "lower_char c = t \<longleftrightarrow> (of_char c :: nat) = k \<or> (of_char c :: nat) = k - 32"
proof -
  have t: "t = char_of k" using assms(1) by auto
  show ?thesis
  proof (cases "(65 \<le> (of_char c :: nat) \<and> (of_char c :: nat) \<le> 90) \<or> (192 \<le> (of_char c :: nat) \<and> (of_char c :: nat) \<le> 214) \<or> (216 \<le> (of_char c :: nat) \<and> (of_char c :: nat) \<le> 222)")
    case True
    then have lt: "(of_char c :: nat) + 32 < 256" by auto
    from True have "lower_char c = char_of ((of_char c :: nat) + 32)"
      by (simp add: lower_char_def Let_def)
    moreover have "(char_of ((of_char c :: nat) + 32) = char_of k) \<longleftrightarrow> (of_char c :: nat) + 32 = k"
      using lt assms(2,3) by (simp add: char_of_eq_iff take_bit_eq_mod) 
    ultimately show ?thesis using True assms(2,3) t by auto
  next
    case False
    then have "lower_char c = c" by (auto simp: lower_char_def Let_def)
    moreover have "c = t \<longleftrightarrow> (of_char c :: nat) = k" using assms(1) by auto
    ultimately show ?thesis using False assms(2,3) by auto
  qed
qed

lemma of_char_eq_char_of: "(of_char c :: nat) = k \<Longrightarrow> c = char_of k"
  by auto

lemma lower_char_n: "lower_char c = CHR ''n'' \<longleftrightarrow> c = CHR ''n'' \<or> c = CHR ''N''"
proof -
  have "(of_char c :: nat) = 110 \<longleftrightarrow> c = CHR ''n''"
  proof -
    have "char_of (110 :: nat) = CHR ''n''" by code_simp
    then show ?thesis using of_char_eq_char_of [of c 110] by auto
  qed
  moreover have "(of_char c :: nat) = 78 \<longleftrightarrow> c = CHR ''N''"
  proof -
    have "char_of (78 :: nat) = CHR ''N''" by code_simp
    then show ?thesis using of_char_eq_char_of [of c 78] by auto
  qed
  ultimately show ?thesis using lower_char_eq [of "CHR ''n''" 110 c] by simp
qed

lemma lower_char_l: "lower_char c = CHR ''l'' \<longleftrightarrow> c = CHR ''l'' \<or> c = CHR ''L''"
proof -
  have "(of_char c :: nat) = 108 \<longleftrightarrow> c = CHR ''l''"
  proof -
    have "char_of (108 :: nat) = CHR ''l''" by code_simp
    then show ?thesis using of_char_eq_char_of [of c 108] by auto
  qed
  moreover have "(of_char c :: nat) = 76 \<longleftrightarrow> c = CHR ''L''"
  proof -
    have "char_of (76 :: nat) = CHR ''L''" by code_simp
    then show ?thesis using of_char_eq_char_of [of c 76] by auto
  qed
  ultimately show ?thesis using lower_char_eq [of "CHR ''l''" 108 c] by simp
qed

lemma lower_nl: "lower s = ''nl'' \<longleftrightarrow> s \<in> {''nl'', ''nL'', ''Nl'', ''NL''}"
proof -
  have "lower s = ''nl'' \<longleftrightarrow> (\<exists>a b. s = [a, b] \<and> lower_char a = CHR ''n'' \<and> lower_char b = CHR ''l'')"
    by (cases s; cases "tl s"; cases "tl (tl s)") (auto simp: lower_def)
  then show ?thesis by (auto simp: lower_char_n lower_char_l)
qed

lemma write_entries_content:
  "write_entries limit i segs (n, buf) = (None, h) \<Longrightarrow>
     snd h = buf @ render_entries (emitted i segs)"
proof (induction segs arbitrary: i n buf)
  case Nil
  then show ?case by (auto simp: emitted_Nil render_entries_Nil)
next
  case (Cons seg segs)
  show ?case
  proof (cases "nonempty_text seg")
    case False
    with Cons.prems have "write_entries limit (Suc i) segs (n, buf) = (None, h)"
      by (simp add: nonempty_text_def)
    from Cons.IH [OF this] False show ?thesis by (simp add: emitted_Cons)
  next
    case True
    let ?b3 = "buf @ str_nat i @ ''\<newline>''
        @ format_timestamp (seg_start seg) @ '' --> '' @ format_timestamp (seg_end seg) @ ''\<newline>''
        @ strip (seg_text seg) @ ''\<newline>\<newline>''"
    from Cons.prems True have "write_entries limit (Suc i) segs (Suc (Suc (Suc n)), ?b3) = (None, h)"
      by (auto simp: nonempty_text_def Let_def f_write_def split: sum.splits if_splits option.splits)
    from Cons.IH [OF this] True show ?thesis
      by (simp add: emitted_Cons render_entries_Cons srt_block_def)
  qed
qed

lemma write_srt_written_content:
  assumes "write_srt sys segs p w = (Inr True, w')"
  shows "files w' p = Some (render_entries (emitted 1 segs))" and "segs \<noteq> []"
proof -
  from assms have ne: "segs \<noteq> []"
    by (auto simp: write_srt_def write_srt_try_def split: if_splits prod.splits sum.splits)
  obtain e h where we: "write_entries (write_limit sys p) 1 segs (0, []) = (e, h)"
    by (cases "write_entries (write_limit sys p) 1 segs (0, [])")
  with assms ne have e: "e = None" and w': "w' = w\<lparr>files := (files w)(p \<mapsto> snd h)\<rparr>"
    by (auto simp: write_srt_def write_srt_try_def split: if_splits option.splits)
  from write_entries_content [of "write_limit sys p" 1 segs 0 "[]" h] we e
  have "snd h = render_entries (emitted 1 segs)" by simp
  with w' show "files w' p = Some (render_entries (emitted 1 segs))" by simp
  from ne show "segs \<noteq> []" .
qed

lemma run_transcription_success:
  assumes "run_transcription self sys m a l v w = (Some p, w')"
  shows "\<exists>segments. m a l = ResultDict (Some segments) \<and> segments \<noteq> []
           \<and> files w' p = Some (render_entries (emitted 1 segments))"
proof -
  let ?p = "path_join (cache_dir self) (splitext_root (basename v) @ ''.srt'')"
  let ?w1 = "record_event (ModelInvoked l) w"
  from assms obtain segments where m: "m a l = ResultDict (Some segments)" and ne: "segments \<noteq> []"
    by (auto simp: run_transcription_def Let_def
        split: model_result.splits option.splits if_splits prod.splits sum.splits)
  obtain r w2 where ws: "write_srt sys segments ?p ?w1 = (r, w2)"
    by (cases "write_srt sys segments ?p ?w1")
  with assms m ne have "r = Inr True" and "w' = w2" and "p = ?p"
    by (auto simp: run_transcription_def Let_def split: sum.splits if_splits)
  with ws write_srt_written_content(1) [of sys segments ?p ?w1 w2] m ne
  show ?thesis by auto
qed

lemma wav_srt_distinct: "path_join a (x @ ''.wav'') \<noteq> path_join a (x @ ''.srt'')"
  by (cases x) (auto simp: path_join_def)

lemma files_remove_file_other: "q \<noteq> p \<Longrightarrow> files (remove_file sys p msg w) q = files w q"
  by (simp add: remove_file_def)

lemma transcribe_video_try_success:
  assumes "transcribe_video_try self sys v l w = (Inr (Some p), ap, w')"
  shows "\<exists>video_bytes samples audio_data m segments.
           files w v = Some video_bytes \<and> video_clip sys video_bytes = AudioTrack samples
           \<and> sf_read sys samples = Some audio_data \<and> model self = Some m
           \<and> m audio_data l = ResultDict (Some segments) \<and> segments \<noteq> []
           \<and> ap = Some (path_join (cache_dir self) (splitext_root (basename v) @ ''.wav''))
           \<and> files w' p = Some (render_entries (emitted 1 segments))"
proof -
  let ?ap = "path_join (cache_dir self) (splitext_root (basename v) @ ''.wav'')"
  from assms obtain video_bytes where vb: "files w v = Some video_bytes"
    by (auto simp: transcribe_video_try_def split: option.splits)
  from assms vb have nc: "video_clip sys video_bytes \<noteq> ClipError"
    by (auto simp: transcribe_video_try_def split: if_splits)
  obtain ra w1 where wa: "write_audiofile sys (video_clip sys video_bytes) ?ap w = (ra, w1)"
    by (cases "write_audiofile sys (video_clip sys video_bytes) ?ap w")
  from assms vb nc wa obtain u where ra: "ra = Inr u"
    by (cases ra) (auto simp: transcribe_video_try_def Let_def)
  from wa ra obtain samples where sm: "video_clip sys video_bytes = AudioTrack samples"
    and w1: "w1 = w\<lparr>files := (files w)(?ap \<mapsto> samples)\<rparr>"
    by (auto simp: write_audiofile_def split: clip_result.splits if_splits)
  from assms vb nc wa ra obtain m where md: "model self = Some m"
    by (cases "model self") (auto simp: transcribe_video_try_def Let_def)
  from assms vb nc wa ra md obtain audio_data where pa: "prepare_audio sys ?ap w1 = Inr audio_data"
    by (cases "prepare_audio sys ?ap w1") (auto simp: transcribe_video_try_def Let_def)
  with w1 have sf: "sf_read sys samples = Some audio_data"
    by (auto simp: prepare_audio_def split: option.splits)
  from assms vb nc wa ra md pa
  have rt: "run_transcription self sys m audio_data l v w1 = (Some p, w')" and ap: "ap = Some ?ap"
    by (auto simp: transcribe_video_try_def Let_def split: prod.splits)
  from run_transcription_success [OF rt] vb sm sf md ap show ?thesis by blast
qed

lemma transcribe_video_success:
  assumes "transcribe_video self sys v l w = (Inr (Some p), w')"
  shows "\<exists>video_bytes samples audio_data m segments.
           files w v = Some video_bytes \<and> video_clip sys video_bytes = AudioTrack samples
           \<and> sf_read sys samples = Some audio_data \<and> model self = Some m
           \<and> m audio_data l = ResultDict (Some segments) \<and> segments \<noteq> []
           \<and> files w' p = Some (render_entries (emitted 1 segments))"
proof -
  let ?ap = "path_join (cache_dir self) (splitext_root (basename v) @ ''.wav'')"
  obtain r ap w1 where t: "transcribe_video_try self sys v l w = (r, ap, w1)"
    by (cases "transcribe_video_try self sys v l w")
  with assms have r: "r = Inr (Some p)"
    by (cases r) (auto simp: transcribe_video_def Let_def)
  from transcribe_video_try_success [OF t [unfolded r]] obtain video_bytes samples audio_data m segments
    where facts: "files w v = Some video_bytes" "video_clip sys video_bytes = AudioTrack samples"
      "sf_read sys samples = Some audio_data" "model self = Some m"
      "m audio_data l = ResultDict (Some segments)" "segments \<noteq> []"
      and ap: "ap = Some ?ap" and f1: "files w1 p = Some (render_entries (emitted 1 segments))"
    by blast
  have p: "p = path_join (cache_dir self) (splitext_root (basename v) @ ''.srt'')"
    using transcribe_video_try_path [OF t [unfolded r]] .
  have pne: "p \<noteq> ?ap" unfolding p using wav_srt_distinct [of "cache_dir self"] by metis
  from assms t r ap have "w' = w1 \<or> w' = remove_file sys ?ap ''Error cleaning up audio file'' w1"
    by (auto simp: transcribe_video_def Let_def split: if_splits)
  with f1 pne have "files w' p = Some (render_entries (emitted 1 segments))"
    by (auto simp: files_remove_file_other)
  with facts show ?thesis by blast
qed

lemma download_file_success:
  "download_file sys service fid p w = (Inr u, w') \<Longrightarrow>
     \<exists>content. get_media service fid = Media content \<and> files w' p = Some content"
  by (auto simp: download_file_def Let_def split: if_splits download_result.splits)

lemma copy2_success: "copy2 sys src dst w = (Inr u, w') \<Longrightarrow> files w' src = files w src"
  by (auto simp: copy2_def split: option.splits if_splits)

lemma upload_srt_success:
  "upload_srt service p folder w = (Inr u, w') \<Longrightarrow>
     \<exists>content. files w p = Some content \<and> drive w' = drive w @ [(folder, basename p, content)]"
  by (auto simp: upload_srt_def Let_def split: option.splits if_splits)

lemma upload_to_destination_success:
  assumes "upload_to_destination sys service lang p w = (Inr u, w')"
  shows "\<exists>dest content.
          getenv sys (if lower lang = ''nl'' then ''OUTPUT_FOLDER_ID'' else ''TEXT_TRANSLATION_FOLDER_ID'')
            = Some dest
          \<and> dest \<noteq> [] \<and> files w p = Some content
          \<and> drive w' = drive w @ [(dest, basename p, content)]"
  using assms
  by (auto simp: upload_to_destination_def split: option.splits if_splits dest!: upload_srt_success)


lemma process_video_try_success:
  assumes "process_video_try self sys fid fname li service w = (Inr b, vs, w')"
  shows "\<exists>dest video_bytes samples audio_data m segments.
           getenv sys (if lower (lang_code_of li) = ''nl'' then ''OUTPUT_FOLDER_ID''
                       else ''TEXT_TRANSLATION_FOLDER_ID'') = Some dest
           \<and> dest \<noteq> []
           \<and> get_media service fid = Media video_bytes
           \<and> video_clip sys video_bytes = AudioTrack samples
           \<and> sf_read sys samples = Some audio_data \<and> model self = Some m
           \<and> m audio_data (lang_code_of li) = ResultDict (Some segments) \<and> segments \<noteq> []
           \<and> drive w' = drive w @
                 [(dest,
                   basename (path_join (cache_dir self)
                     (splitext_root (basename (path_join (cache_dir self) fname)) @ ''.srt'')),
                   render_entries (emitted 1 segments))]"
proof -
  let ?v = "path_join (cache_dir self) fname"
  let ?l = "lang_code_of li"
  define w1 where "w1 = warn_missing_code li w"
  have d1: "drive w1 = drive w" by (simp add: w1_def warn_missing_code_def)
  obtain rd w2 where dl: "download_file sys service fid ?v w1 = (rd, w2)"
    by (cases "download_file sys service fid ?v w1")
  from assms dl obtain u where rd: "rd = Inr u"
    by (cases rd) (auto simp: process_video_try_def Let_def w1_def [symmetric])
  obtain rt w3 where tr: "transcribe_video self sys ?v ?l w2 = (rt, w3)"
    by (cases "transcribe_video self sys ?v ?l w2")
  from assms dl rd tr obtain p where rt: "rt = Inr (Some p)" and pne: "p \<noteq> []"
    by (cases rt) (auto simp: process_video_try_def Let_def w1_def [symmetric]
        split: option.splits if_splits)
  obtain rc w4 where cp: "copy2 sys p (path_join (output_dir self) (basename p)) w3 = (rc, w4)"
    by (cases "copy2 sys p (path_join (output_dir self) (basename p)) w3")
  from assms dl rd tr rt pne cp obtain u2 where rc: "rc = Inr u2"
    by (cases rc) (auto simp: process_video_try_def Let_def w1_def [symmetric])
  obtain ru w5 where up: "upload_to_destination sys service ?l p w4 = (ru, w5)"
    by (cases "upload_to_destination sys service ?l p w4")
  from assms dl rd tr rt pne cp rc up obtain u3 where ru: "ru = Inr u3" and w': "w' = w5"
    by (cases ru) (auto simp: process_video_try_def Let_def w1_def [symmetric])
  have p: "p = path_join (cache_dir self) (splitext_root (basename ?v) @ ''.srt'')"
    using transcribe_video_path [OF tr [unfolded rt]] .
  from download_file_success [OF dl [unfolded rd]] obtain video_bytes
    where gm: "get_media service fid = Media video_bytes" and f2: "files w2 ?v = Some video_bytes"
    by blast
  from transcribe_video_success [OF tr [unfolded rt]] f2 obtain samples audio_data m segments
    where facts: "video_clip sys video_bytes = AudioTrack samples"
      "sf_read sys samples = Some audio_data" "model self = Some m"
      "m audio_data ?l = ResultDict (Some segments)" "segments \<noteq> []"
      and f3: "files w3 p = Some (render_entries (emitted 1 segments))"
    by auto
  have f4: "files w4 p = Some (render_entries (emitted 1 segments))"
    using copy2_success [OF cp [unfolded rc]] f3 by simp
  have d4: "drive w4 = drive w"
    using drive_copy2 [OF cp] drive_transcribe_video [OF tr] drive_download_file [OF dl] d1 by simp
  from upload_to_destination_success [OF up [unfolded ru]] f4 d4 obtain dest
    where "getenv sys (if lower ?l = ''nl'' then ''OUTPUT_FOLDER_ID''
                       else ''TEXT_TRANSLATION_FOLDER_ID'') = Some dest"
      and "dest \<noteq> []"
      and "drive w5 = drive w @ [(dest, basename p, render_entries (emitted 1 segments))]"
    by auto
  with gm facts w' p show ?thesis by blast
qed

lemma process_video_success:
  assumes "process_video self sys fid fname li service w = (Inr True, w')"
  shows "\<exists>dest video_bytes samples audio_data m segments.
           getenv sys (if lower (lang_code_of li) = ''nl'' then ''OUTPUT_FOLDER_ID''
                       else ''TEXT_TRANSLATION_FOLDER_ID'') = Some dest
           \<and> dest \<noteq> []
           \<and> get_media service fid = Media video_bytes
           \<and> video_clip sys video_bytes = AudioTrack samples
           \<and> sf_read sys samples = Some audio_data \<and> model self = Some m
           \<and> m audio_data (lang_code_of li) = ResultDict (Some segments) \<and> segments \<noteq> []
           \<and> drive w' = drive w @
                 [(dest,
                   basename (path_join (cache_dir self)
                     (splitext_root (basename (path_join (cache_dir self) fname)) @ ''.srt'')),
                   render_entries (emitted 1 segments))]"
proof -
  obtain rt vp sp wt where t: "process_video_try self sys fid fname li service w = (rt, (vp, sp), wt)"
    by (cases "process_video_try self sys fid fname li service w") auto
  with assms obtain b where rt: "rt = Inr b" and w': "w' = cleanup_files sys [vp, sp] wt"
    by (cases rt) (auto simp: process_video_def Let_def simp del: cleanup_files.simps)
  from process_video_try_success [OF t [unfolded rt]] w' show ?thesis
    by (simp del: cleanup_files.simps)
qed

lemma lang_code_of_code:
  "(\<forall>c. code li = Some c \<and> c \<noteq> [] \<longrightarrow> lang_code_of li = c)
   \<and> (code li = None \<or> code li = Some [] \<longrightarrow> lang_code_of li = ''en'')"
  by (auto simp: lang_code_of_def)

text \<open>
  Claim C6. A successful run uploads exactly one file: the subtitle file, under its base
  name, holding the entries of the segments that the recognizer returned for the
  downloaded video and the language code. It goes to the folder of
  \<open>OUTPUT_FOLDER_ID\<close> when the language code is \<open>nl\<close> in any letter case, and to the
  folder of \<open>TEXT_TRANSLATION_FOLDER_ID\<close> for every other code. A failed run uploads
  nothing. The language code is the code of the binding; a binding without a code (or
  with an empty one) is treated as \<open>en\<close>, which is routed to the translation folder.
\<close>

theorem upload_destination:
  assumes "process_video self sys file_id file_name language_info service w = (r, w')"
  shows "(r = Inr True \<longrightarrow>
            (\<exists>dest video_bytes samples audio_data m segments.
               getenv sys (if lower (lang_code_of language_info) = ''nl'' then ''OUTPUT_FOLDER_ID''
                           else ''TEXT_TRANSLATION_FOLDER_ID'') = Some dest
               \<and> dest \<noteq> []
               \<and> get_media service file_id = Media video_bytes
               \<and> video_clip sys video_bytes = AudioTrack samples
               \<and> sf_read sys samples = Some audio_data \<and> model self = Some m
               \<and> m audio_data (lang_code_of language_info) = ResultDict (Some segments)
               \<and> segments \<noteq> []
               \<and> drive w' = drive w @
                     [(dest,
                       basename (path_join (cache_dir self)
                         (splitext_root (basename (path_join (cache_dir self) file_name)) @ ''.srt'')),
                       render_entries (emitted 1 segments))]))
         \<and> (r \<noteq> Inr True \<longrightarrow> r = Inr False \<and> drive w' = drive w)
         \<and> (\<forall>c. code language_info = Some c \<and> c \<noteq> [] \<longrightarrow> lang_code_of language_info = c)
         \<and> (code language_info = None \<or> code language_info = Some [] \<longrightarrow>
               lang_code_of language_info = ''en'' \<and> lower (lang_code_of language_info) \<noteq> ''nl'')
         \<and> (lower (lang_code_of language_info) = ''nl''
              \<longleftrightarrow> lang_code_of language_info \<in> {''nl'', ''nL'', ''Nl'', ''NL''})"
proof -
  have en: "code language_info = None \<or> code language_info = Some [] \<longrightarrow>
          lang_code_of language_info = ''en'' \<and> lower (lang_code_of language_info) \<noteq> ''nl''"
    by (auto simp: lang_code_of_def lower_nl)
  have ok: "r = Inr True \<longrightarrow>
            (\<exists>dest video_bytes samples audio_data m segments.
               getenv sys (if lower (lang_code_of language_info) = ''nl'' then ''OUTPUT_FOLDER_ID''
                           else ''TEXT_TRANSLATION_FOLDER_ID'') = Some dest
               \<and> dest \<noteq> []
               \<and> get_media service file_id = Media video_bytes
               \<and> video_clip sys video_bytes = AudioTrack samples
               \<and> sf_read sys samples = Some audio_data \<and> model self = Some m
               \<and> m audio_data (lang_code_of language_info) = ResultDict (Some segments)
               \<and> segments \<noteq> []
               \<and> drive w' = drive w @
                     [(dest,
                       basename (path_join (cache_dir self)
                         (splitext_root (basename (path_join (cache_dir self) file_name)) @ ''.srt'')),
                       render_entries (emitted 1 segments))])"
    using process_video_success [of self sys file_id file_name language_info service w w'] assms
    by simp
  have failed: "r \<noteq> Inr True \<longrightarrow> r = Inr False \<and> drive w' = drive w"
    using drive_process_video [OF assms] by simp
  from ok failed en lang_code_of_code [of language_info] lower_nl [of "lang_code_of language_info"]
  show ?thesis by (intro conjI) simp_all
qed

theorem upload_destination_witness:
  "fst (process_video processor_a sys_ok ''id1'' ''talk.mp4'' dutch_upper drive_ok empty_world) = Inr True
   \<and> drive (snd (process_video processor_a sys_ok ''id1'' ''talk.mp4'' dutch_upper drive_ok empty_world))
       = [(''OUT'', ''talk.srt'',
           ''1\<newline>00:00:01,000 --> 00:00:02,500\<newline>hello\<newline>\<newline>2\<newline>00:00:04,000 --> 00:00:06,250\<newline>world\<newline>\<newline>'')]
   \<and> drive (snd (process_video processor_a sys_ok ''id1'' ''talk.mp4'' german drive_ok empty_world))
       = [(''IN'', ''talk.srt'',
           ''1\<newline>00:00:01,000 --> 00:00:02,500\<newline>hello\<newline>\<newline>2\<newline>00:00:04,000 --> 00:00:06,250\<newline>world\<newline>\<newline>'')]
   \<and> map fst (drive (snd (process_video processor_a sys_ok ''id1'' ''talk.mp4'' other drive_ok empty_world)))
       = [''IN'']"
proof -
  have a: "fst (process_video processor_a sys_ok ''id1'' ''talk.mp4'' dutch_upper drive_ok empty_world) = Inr True"
    by code_simp
  have b: "drive (snd (process_video processor_a sys_ok ''id1'' ''talk.mp4'' dutch_upper drive_ok empty_world))
       = [(''OUT'', ''talk.srt'',
           ''1\<newline>00:00:01,000 --> 00:00:02,500\<newline>hello\<newline>\<newline>2\<newline>00:00:04,000 --> 00:00:06,250\<newline>world\<newline>\<newline>'')]"
    by code_simp
  have c: "drive (snd (process_video processor_a sys_ok ''id1'' ''talk.mp4'' german drive_ok empty_world))
       = [(''IN'', ''talk.srt'',
           ''1\<newline>00:00:01,000 --> 00:00:02,500\<newline>hello\<newline>\<newline>2\<newline>00:00:04,000 --> 00:00:06,250\<newline>world\<newline>\<newline>'')]"
    by code_simp
  have d: "map fst (drive (snd (process_video processor_a sys_ok ''id1'' ''talk.mp4'' other drive_ok empty_world)))
       = [''IN'']"
    by code_simp
  note routed = upload_destination [OF prod.collapse [symmetric],
        of processor_a sys_ok "''id1''" "''talk.mp4''" dutch_upper drive_ok empty_world]
  from routed a b c d show ?thesis by blast
qed

text \<open>
  Claim C4, as amended. When the video was downloaded and the subtitle file written, and
  copying the subtitle file into the local output directory fails, the run fails: the
  error is logged, nothing is uploaded, the result is false, and the cached video and
  subtitle file are cleaned up.
\<close>

theorem archive_failure_fails_run:
  assumes "video_path = path_join (cache_dir self) file_name"
    and "download_file sys service file_id video_path (warn_missing_code language_info w) = (Inr u, w2)"
    and "transcribe_video self sys video_path (lang_code_of language_info) w2 = (Inr (Some srt_path), w3)"
    and "fst (copy2 sys srt_path (path_join (output_dir self) (basename srt_path)) w3) = Inl e"
  shows "process_video self sys file_id file_name language_info service w
           = (Inr False,
              cleanup_files sys [Some video_path, Some srt_path]
                (log_error ''Error processing video'' w3))
         \<and> drive (snd (process_video self sys file_id file_name language_info service w)) = drive w"
proof -
  have ne: "srt_path \<noteq> []"
    using transcribe_video_path [OF assms(3)] by (simp add: path_join_nonempty)
  obtain w4 where cp: "copy2 sys srt_path (path_join (output_dir self) (basename srt_path)) w3 = (Inl e, w4)"
    using assms(4) by (cases "copy2 sys srt_path (path_join (output_dir self) (basename srt_path)) w3") simp
  have w4: "w4 = w3" using cp by (rule copy2_failure)
  have "process_video_try self sys file_id file_name language_info service w
          = (Inl e, (Some video_path, Some srt_path), w3)"
    using assms(1,2,3) cp w4 ne by (simp add: process_video_try_def Let_def)
  then have run: "process_video self sys file_id file_name language_info service w
           = (Inr False,
              cleanup_files sys [Some video_path, Some srt_path]
                (log_error ''Error processing video'' w3))"
    by (simp add: process_video_def Let_def del: cleanup_files.simps)
  have "drive w3 = drive w"
    using drive_transcribe_video [OF assms(3)] drive_download_file [OF assms(2)]
    by (simp add: warn_missing_code_def)
  with run show ?thesis by (simp del: cleanup_files.simps)
qed

theorem archive_failure_fails_run_witness:
  "fst (download_file sys_archive_readonly drive_ok ''id1'' ''Data/Cache/talk.mp4''
          (warn_missing_code dutch empty_world)) = Inr ()
   \<and> fst (transcribe_video processor_a sys_archive_readonly ''Data/Cache/talk.mp4'' ''nl''
          (snd (download_file sys_archive_readonly drive_ok ''id1'' ''Data/Cache/talk.mp4''
                 (warn_missing_code dutch empty_world)))) = Inr (Some ''Data/Cache/talk.srt'')
   \<and> fst (process_video processor_a sys_archive_readonly ''id1'' ''talk.mp4'' dutch drive_ok empty_world)
       = Inr False
   \<and> drive (snd (process_video processor_a sys_archive_readonly ''id1'' ''talk.mp4'' dutch drive_ok empty_world))
       = drive empty_world"
proof -
  let ?w1 = "warn_missing_code dutch empty_world"
  let ?d = "download_file sys_archive_readonly drive_ok ''id1'' ''Data/Cache/talk.mp4'' ?w1"
  let ?t = "transcribe_video processor_a sys_archive_readonly ''Data/Cache/talk.mp4'' ''nl'' (snd ?d)"
  have vp: "''Data/Cache/talk.mp4'' = path_join (cache_dir processor_a) ''talk.mp4''" by code_simp
  have lc: "lang_code_of dutch = ''nl''" by code_simp
  have d: "fst ?d = Inr ()" by code_simp
  have t: "fst ?t = Inr (Some ''Data/Cache/talk.srt'')" by code_simp
  have c: "fst (copy2 sys_archive_readonly ''Data/Cache/talk.srt''
             (path_join (output_dir processor_a) (basename ''Data/Cache/talk.srt'')) (snd ?t)) = Inl OSError"
    by code_simp
  have d': "?d = (Inr (), snd ?d)" using d by (metis prod.collapse)
  have t': "transcribe_video processor_a sys_archive_readonly ''Data/Cache/talk.mp4'' (lang_code_of dutch) (snd ?d)
              = (Inr (Some ''Data/Cache/talk.srt''), snd ?t)"
    using t lc by (metis prod.collapse)
  note run = archive_failure_fails_run [OF vp d' t' c]
  from run have r: "fst (process_video processor_a sys_archive_readonly ''id1'' ''talk.mp4'' dutch drive_ok empty_world)
       = Inr False"
    by (metis fst_conv)
  from run have dr: "drive (snd (process_video processor_a sys_archive_readonly ''id1'' ''talk.mp4'' dutch drive_ok empty_world))
       = drive empty_world"
    by blast
  show ?thesis using d t r dr by blast
qed

text \<open>
  Claim C4 as stated fails: the subtitle file is written, the copy into the output
  directory fails, and the run returns false without an upload.
\<close>

theorem archive_failure_counterexample:
  "fst (transcribe_video processor_a sys_archive_readonly ''Data/Cache/talk.mp4'' ''nl''
          (snd (download_file sys_archive_readonly drive_ok ''id1'' ''Data/Cache/talk.mp4'' empty_world)))
     = Inr (Some ''Data/Cache/talk.srt'')
   \<and> \<not> can_create sys_archive_readonly ''Data/Output/talk.srt''
   \<and> fst (process_video processor_a sys_archive_readonly ''id1'' ''talk.mp4'' dutch drive_ok empty_world)
       = Inr False
   \<and> drive (snd (process_video processor_a sys_archive_readonly ''id1'' ''talk.mp4'' dutch drive_ok empty_world))
       = []
   \<and> trace (snd (process_video processor_a sys_archive_readonly ''id1'' ''talk.mp4'' dutch drive_ok empty_world))
       = [DownloadRequested ''id1'' ''Data/Cache/talk.mp4'', ModelInvoked ''nl'',
          Removed ''Data/Cache/talk.wav'', LogError ''Error processing video'',
          Removed ''Data/Cache/talk.mp4'', Removed ''Data/Cache/talk.srt'']"
  by code_simp

text \<open>
  Claim C3 at a failing input. After a first run has put \<open>talk.srt\<close> into the output
  folder, the existence check finds it, and yet a second run of \<open>process_video\<close> on the same
  file downloads, transcribes and uploads again, leaving two copies in the folder.
\<close>

theorem rerun_repeats_work:
  "fst (check_existing_translation ''talk.mp4'' drive_ok ''OUT'' ''IN'' after_first_run)
   \<and> fst (process_video processor_a sys_ok ''id1'' ''talk.mp4'' dutch drive_ok after_first_run) = Inr True
   \<and> map (\<lambda>entry. (fst entry, fst (snd entry))) (drive after_first_run) = [(''OUT'', ''talk.srt'')]
   \<and> map (\<lambda>entry. (fst entry, fst (snd entry)))
        (drive (snd (process_video processor_a sys_ok ''id1'' ''talk.mp4'' dutch drive_ok after_first_run)))
       = [(''OUT'', ''talk.srt''), (''OUT'', ''talk.srt'')]
   \<and> drop (length (trace after_first_run))
        (trace (snd (process_video processor_a sys_ok ''id1'' ''talk.mp4'' dutch drive_ok after_first_run)))
       = [DownloadRequested ''id1'' ''Data/Cache/talk.mp4'', ModelInvoked ''nl'',
          Removed ''Data/Cache/talk.wav'', UploadRequested ''talk.srt'' ''OUT'',
          Removed ''Data/Cache/talk.mp4'', Removed ''Data/Cache/talk.srt'']"
  by code_simp

text \<open>
  Claim C7 at a failing input. When the second write to the subtitle file fails, the run
  fails and removes the video and the audio file, but the partly written subtitle file
  stays in the cache directory.
\<close>

theorem partial_subtitle_left_behind:
  "fst (process_video processor_a sys_disk_full ''id1'' ''talk.mp4'' dutch drive_ok empty_world) = Inr False
   \<and> files (snd (process_video processor_a sys_disk_full ''id1'' ''talk.mp4'' dutch drive_ok empty_world))
        ''Data/Cache/talk.srt'' = Some ''1\<newline>''
   \<and> files (snd (process_video processor_a sys_disk_full ''id1'' ''talk.mp4'' dutch drive_ok empty_world))
        ''Data/Cache/talk.mp4'' = None
   \<and> files (snd (process_video processor_a sys_disk_full ''id1'' ''talk.mp4'' dutch drive_ok empty_world))
        ''Data/Cache/talk.wav'' = None"
  by code_simp

end
